theory Spec2Isabelle
  imports Complex_Main
begin

section \<open>The hypothesis model\<close>

text \<open>
  Modelled from the spec: \<^verbatim>\<open>btrack.constants.Fates\<close> is imported by
  \<^verbatim>\<open>optimiser.py\<close> but is not among the sources. The spec (section 3) gives the
  closed set of seven event kinds; a type code outside that set is \<open>UNRECOGNISED\<close>
  with the code it carries.
\<close>

datatype Fates =
    FALSE_POSITIVE
  | INITIALIZE
  | TERMINATE
  | APOPTOSIS
  | LINK
  | DIVIDE
  | MERGE
  | UNRECOGNISED int

text \<open>
  Modelled from the spec: the class \<^verbatim>\<open>hypothesis.Hypothesis\<close> (the
  \<^verbatim>\<open>PyHypothesis\<close> objects of the docstring) is not among the sources. The record
  has exactly the attributes that \<^verbatim>\<open>optimise\<close> reads. Identifiers are Python
  integers (\<^verbatim>\<open>int(h.ID)\<close>), the score is a real number. The attribute
  \<^verbatim>\<open>type\<close> is called \<open>htype\<close>.
\<close>

record Hypothesis =
  ID :: int
  htype :: Fates
  log_likelihood :: real
  link_ID :: int
  child_one_ID :: int
  child_two_ID :: int
  parent_one_ID :: int
  parent_two_ID :: int

text \<open>The exceptions that can leave \<^verbatim>\<open>optimise\<close>.\<close>

datatype error = ValueError | IndexError | TypeError

text \<open>Sequencing of fallible steps: the first exception raised is the one that propagates.\<close>

definition bind_err :: "error + 'a \<Rightarrow> ('a \<Rightarrow> error + 'b) \<Rightarrow> error + 'b" where
  "bind_err m f = (case m of Inl e \<Rightarrow> Inl e | Inr v \<Rightarrow> f v)"

section \<open>Sparse matrices of \<^verbatim>\<open>cvxopt\<close>\<close>

text \<open>
  A \<^verbatim>\<open>cvxopt.spmatrix\<close> of doubles: its shape and its stored entries. A position
  that is not stored reads as zero.
\<close>

record spmatrix =
  nrows :: nat
  ncols :: nat
  entries :: "nat \<times> nat \<rightharpoonup> real"

text \<open>\<^verbatim>\<open>spmatrix([], [], [], (m, n), 'd')\<close>: no stored entry; a negative dimension is refused.\<close>

definition spmatrix_new :: "int \<Rightarrow> int \<Rightarrow> error + spmatrix" where
  "spmatrix_new m n =
     (if m < 0 \<or> n < 0 then Inl TypeError
      else Inr \<lparr>nrows = nat m, ncols = nat n, entries = Map.empty\<rparr>)"

text \<open>
  Indexing follows Python: an index \<open>i\<close> of a dimension \<open>d\<close> is accepted when
  \<open>- d \<le> i < d\<close>, and a negative one counts from the end.
\<close>

definition out_rng :: "int \<Rightarrow> nat \<Rightarrow> bool" where
  "out_rng i d = (i < - int d \<or> int d \<le> i)"

definition cwrap :: "int \<Rightarrow> nat \<Rightarrow> nat" where
  "cwrap i d = nat (if 0 \<le> i then i else int d + i)"

text \<open>\<^verbatim>\<open>A[i,j] = v\<close>\<close>

definition setitem :: "spmatrix \<Rightarrow> int \<Rightarrow> nat \<Rightarrow> real \<Rightarrow> error + spmatrix" where
  "setitem M i j v =
     (if out_rng i (nrows M) \<or> out_rng (int j) (ncols M) then Inl IndexError
      else Inr (M\<lparr>entries := (entries M)((cwrap i (nrows M), j) \<mapsto> v)\<rparr>))"

text \<open>\<^verbatim>\<open>A[i,j]\<close> for a position inside the shape.\<close>

definition getitem :: "spmatrix \<Rightarrow> nat \<Rightarrow> nat \<Rightarrow> real" where
  "getitem M i j = (case entries M (i, j) of None \<Rightarrow> 0 | Some v \<Rightarrow> v)"

text \<open>\<^verbatim>\<open>-G\<close>: every stored entry is negated.\<close>

definition spmatrix_neg :: "spmatrix \<Rightarrow> spmatrix" where
  "spmatrix_neg M = M\<lparr>entries := map_option uminus \<circ> entries M\<rparr>"

section \<open>Building the constraints\<close>

text \<open>\<^verbatim>\<open>trk_idx = lambda h: int(h)-1\<close>\<close>

definition trk_idx :: "int \<Rightarrow> int" where
  "trk_idx h = h - 1"

text \<open>
  The body of the loop over \<^verbatim>\<open>enumerate(self.hypotheses)\<close> after the score is
  stored: the chain of comparisons on \<^verbatim>\<open>h.type\<close>, in the order of the source,
  with the assignments of each branch in their order.
\<close>

definition encode :: "int \<Rightarrow> nat \<Rightarrow> Hypothesis \<Rightarrow> spmatrix \<Rightarrow> error + spmatrix" where
  "encode N counter h M =
     (if htype h = FALSE_POSITIVE then
        (let trk = trk_idx (ID h) in
         bind_err (setitem M trk counter 1) (\<lambda>M.
         setitem M (N + trk) counter 1))
      else if htype h = INITIALIZE then
        (let trk = trk_idx (ID h) in
         setitem M (N + trk) counter 1)
      else if htype h = TERMINATE then
        (let trk = trk_idx (ID h) in
         setitem M trk counter 1)
      else if htype h = APOPTOSIS then
        (let trk = trk_idx (ID h) in
         setitem M trk counter 1)
      else if htype h = LINK then
        (let trk_i = trk_idx (ID h); trk_j = trk_idx (link_ID h) in
         bind_err (setitem M trk_i counter 1) (\<lambda>M.
         setitem M (N + trk_j) counter 1))
      else if htype h = DIVIDE then
        (let trk = trk_idx (ID h);
             child_one = trk_idx (child_one_ID h);
             child_two = trk_idx (child_two_ID h) in
         bind_err (setitem M trk counter 1) (\<lambda>M.
         bind_err (setitem M (N + child_one) counter 1) (\<lambda>M.
         setitem M (N + child_two) counter 1)))
      else if htype h = MERGE then
        (let trk = trk_idx (ID h);
             parent_one = trk_idx (parent_one_ID h);
             parent_two = trk_idx (parent_two_ID h) in
         bind_err (setitem M (N + trk) counter 1) (\<lambda>M.
         bind_err (setitem M parent_one counter 1) (\<lambda>M.
         setitem M parent_two counter 1)))
      else Inl ValueError)"

text \<open>
  The loop itself: \<open>counter\<close> runs with the position in the pool; the score of the
  hypothesis is stored in \<open>rho\<close> before its type is looked at.
\<close>

fun build_loop ::
  "int \<Rightarrow> nat \<Rightarrow> Hypothesis list \<Rightarrow> spmatrix \<times> real list \<Rightarrow> error + spmatrix \<times> real list"
where
  "build_loop N counter [] (M, rho) = Inr (M, rho)"
| "build_loop N counter (h # hs) (M, rho) =
     (let rho = rho[counter := log_likelihood h] in
      bind_err (encode N counter h M) (\<lambda>M.
      build_loop N (Suc counter) hs (M, rho)))"

text \<open>
  \<^verbatim>\<open>max(set([int(h.ID) for h in self.hypotheses]))\<close>: the builtin raises
  \<^verbatim>\<open>ValueError\<close> on an empty collection.
\<close>

definition max_ID :: "Hypothesis list \<Rightarrow> error + int" where
  "max_ID hyps = (if hyps = [] then Inl ValueError else Inr (Max (set (map ID hyps))))"

text \<open>
  Lines 112 to 186 of \<^verbatim>\<open>optimise\<close>: the hypothesis count, \<open>N\<close>, the empty
  \<open>A\<close> of shape \<open>(2N, n)\<close>, the zero vector \<open>rho\<close> and the loop. The result is
  \<open>(N, A, rho)\<close>.
\<close>

definition constraints :: "Hypothesis list \<Rightarrow> error + int \<times> spmatrix \<times> real list" where
  "constraints hyps =
     (let n_hypotheses = length hyps in
      bind_err (max_ID hyps) (\<lambda>N.
      bind_err (spmatrix_new (2 * N) (int n_hypotheses)) (\<lambda>A0.
      bind_err (build_loop N 0 hyps (A0, replicate n_hypotheses 0)) (\<lambda>(M, rho).
      Inr (N, M, rho)))))"

section \<open>The integer program and the solver\<close>

text \<open>
  The arguments of \<^verbatim>\<open>cvxopt.glpk.ilp(c, G, h, A, b, I, B)\<close>: minimise \<open>c x\<close>
  subject to \<open>G x \<le> h\<close>, \<open>A x = b\<close>, \<open>x\<close> integer on \<open>I\<close> and binary on \<open>B\<close>.
\<close>

record ilp_args =
  ilp_c :: "real list"
  ilp_G :: spmatrix
  ilp_h :: "real list"
  ilp_A :: spmatrix
  ilp_b :: "real list"
  ilp_I :: "nat set"
  ilp_B :: "nat set"

text \<open>
  The solver is a library outside the repository, so it is a parameter of the model: it
  raises, or returns a status and a solution (\<^verbatim>\<open>None\<close> when there is none).
\<close>

type_synonym solver = "ilp_args \<Rightarrow> error + string \<times> real list option"

text \<open>
  Lines 190 to 198: the arguments handed to the solver, \<^verbatim>\<open>ilp(-rho, -G, h, A, b, I, B)\<close>.
\<close>

definition ilp_problem :: "int \<Rightarrow> nat \<Rightarrow> spmatrix \<Rightarrow> real list \<Rightarrow> error + ilp_args" where
  "ilp_problem N n_hypotheses M rho =
     bind_err (spmatrix_new (2 * N) (int n_hypotheses)) (\<lambda>G.
     (let h = replicate (nat (2 * N)) 0;
          I = {};
          B = set [0..<n_hypotheses];
          b = replicate (nat (2 * N)) 1
      in Inr \<lparr>ilp_c = map uminus rho, ilp_G = spmatrix_neg G, ilp_h = h,
               ilp_A = M, ilp_b = b, ilp_I = I, ilp_B = B\<rparr>))"

section \<open>The optimiser\<close>

text \<open>The module's logger: the records it has received, oldest first.\<close>

datatype level = INFO | WARNING

type_synonym log = "(level \<times> string) list"

record TrackOptimiser =
  hypotheses :: "Hypothesis list"

text \<open>
  \<^verbatim>\<open>[i for i,h in enumerate(self.hypotheses) if x[i]>0]\<close>; reading \<open>x\<close> past its
  end raises.
\<close>

fun selected :: "real list \<Rightarrow> nat \<Rightarrow> Hypothesis list \<Rightarrow> error + nat list" where
  "selected x i [] = Inr []"
| "selected x i (h # hs) =
     (if length x \<le> i then Inl IndexError
      else bind_err (selected x (Suc i) hs) (\<lambda>rest.
           Inr (if 0 < x ! i then i # rest else rest)))"

text \<open>
  \<^verbatim>\<open>TrackOptimiser.optimise\<close>: the value returned or the exception raised, and the
  logger afterwards.
\<close>

definition optimise :: "solver \<Rightarrow> TrackOptimiser \<Rightarrow> log \<Rightarrow> (error + nat list) \<times> log" where
  "optimise ilp self lg0 =
     (let lg1 = lg0 @ [(INFO, ''Setting up constraints matrix for global optimisation...'')] in
      case constraints (hypotheses self) of
        Inl e \<Rightarrow> (Inl e, lg1)
      | Inr (N, M, rho) \<Rightarrow>
          (let lg2 = lg1 @ [(INFO, ''Optimising...'')] in
           case bind_err (ilp_problem N (length (hypotheses self)) M rho) ilp of
             Inl e \<Rightarrow> (Inl e, lg2)
           | Inr (status, x) \<Rightarrow>
               if status \<noteq> ''optimal'' then
                 (Inr [], lg2 @ [(WARNING, ''Optimizer returned status: '' @ status)])
               else
                 (case x of
                    None \<Rightarrow> (Inl TypeError, lg2)
                  | Some xv \<Rightarrow>
                      (case selected xv 0 (hypotheses self) of
                         Inl e \<Rightarrow> (Inl e, lg2)
                       | Inr results \<Rightarrow>
                           (Inr results,
                            lg2 @ [(INFO, ''Optimisation complete. (Solution: '' @ status @ '')'')])))))"

section \<open>What a solution of the program is\<close>

text \<open>Row \<open>i\<close> of \<open>M\<close> times the vector \<open>x\<close>.\<close>

definition row_dot :: "spmatrix \<Rightarrow> nat \<Rightarrow> real list \<Rightarrow> real" where
  "row_dot M i x = sum_list (map (\<lambda>j. getitem M i j * x ! j) [0..<ncols M])"

text \<open>\<open>x\<close> satisfies every constraint of the program.\<close>

definition feasible :: "ilp_args \<Rightarrow> real list \<Rightarrow> bool" where
  "feasible p x =
     (length x = length (ilp_c p)
      \<and> list_all (\<lambda>i. row_dot (ilp_A p) i x = ilp_b p ! i) [0..<nrows (ilp_A p)]
      \<and> list_all (\<lambda>i. row_dot (ilp_G p) i x \<le> ilp_h p ! i) [0..<nrows (ilp_G p)]
      \<and> list_all (\<lambda>j. j \<in> ilp_B p \<longrightarrow> x ! j = 0 \<or> x ! j = 1) [0..<length x]
      \<and> list_all (\<lambda>j. j \<in> ilp_I p \<longrightarrow> x ! j = of_int \<lfloor>x ! j\<rfloor>) [0..<length x])"

text \<open>
  The part of the solver's contract the optimiser relies on: the status
  \<^verbatim>\<open>'optimal'\<close> comes with a solution, and that solution satisfies the constraints.
\<close>

definition sound_answer :: "ilp_args \<Rightarrow> string \<times> real list option \<Rightarrow> bool" where
  "sound_answer p r =
     (fst r = ''optimal'' \<longrightarrow> (case snd r of None \<Rightarrow> False | Some x \<Rightarrow> feasible p x))"

text \<open>
  A reference solver for small programs in which every variable is binary: it tries every
  vector of zeros and ones, keeps those that satisfy the constraints, and returns a
  cheapest one, the first in the enumeration among equals. It is not code of the
  repository; it stands for the library solver where a run on a concrete pool is
  evaluated.
\<close>

fun binary_vectors :: "nat \<Rightarrow> real list list" where
  "binary_vectors 0 = [[]]"
| "binary_vectors (Suc n) = concat (map (\<lambda>v. [0 # v, 1 # v]) (binary_vectors n))"

definition objective :: "real list \<Rightarrow> real list \<Rightarrow> real" where
  "objective c x = sum_list (map (\<lambda>(a, b). a * b) (zip c x))"

fun cheapest :: "real list \<Rightarrow> real list \<Rightarrow> real list list \<Rightarrow> real list" where
  "cheapest c best [] = best"
| "cheapest c best (v # vs) =
     cheapest c (if objective c v < objective c best then v else best) vs"

definition exhaustive_ilp :: solver where
  "exhaustive_ilp p =
     (case filter (feasible p) (binary_vectors (length (ilp_c p))) of
        [] \<Rightarrow> Inr (''infeasible'', None)
      | v # vs \<Rightarrow> Inr (''optimal'', Some (cheapest (ilp_c p) v vs)))"

section \<open>The table of the specification and the well-formed pools\<close>

text \<open>The seven kinds of section 3 of the specification.\<close>

definition recognised :: "Fates \<Rightarrow> bool" where
  "recognised t = (case t of UNRECOGNISED c \<Rightarrow> False | _ \<Rightarrow> True)"

text \<open>
  The table of section 4.2 of the specification, written from its words and not from the
  code: the rows of \<open>A\<close> that hold a one in the column of a hypothesis, with
  \<open>t = id - 1\<close>, a tail slot \<open>tail(i) = i\<close> and a head slot \<open>head(i) = N + i\<close>, the
  references counted from zero like \<open>t\<close>.
\<close>

definition table_rows :: "int \<Rightarrow> Hypothesis \<Rightarrow> int list" where
  "table_rows N h =
     (let t = ID h - 1 in
      case htype h of
        FALSE_POSITIVE \<Rightarrow> [t, N + t]
      | INITIALIZE \<Rightarrow> [N + t]
      | TERMINATE \<Rightarrow> [t]
      | APOPTOSIS \<Rightarrow> [t]
      | LINK \<Rightarrow> [t, N + (link_ID h - 1)]
      | DIVIDE \<Rightarrow> [t, N + (child_one_ID h - 1), N + (child_two_ID h - 1)]
      | MERGE \<Rightarrow> [N + t, parent_one_ID h - 1, parent_two_ID h - 1]
      | UNRECOGNISED c \<Rightarrow> [])"

text \<open>Assigning a one at each of a list of rows of one column, first to last.\<close>

fun assign_rows :: "spmatrix \<Rightarrow> int list \<Rightarrow> nat \<Rightarrow> error + spmatrix" where
  "assign_rows M [] c = Inr M"
| "assign_rows M (r # rs) c = bind_err (setitem M r c 1) (\<lambda>M'. assign_rows M' rs c)"

text \<open>
  The auxiliary references a hypothesis carries for its type (section 3 of the
  specification), and the pools in which every identifier is a tracklet: the subject and
  each auxiliary reference lie between 1 and \<open>N\<close>.
\<close>

definition aux_refs :: "Hypothesis \<Rightarrow> int list" where
  "aux_refs h =
     (case htype h of
        LINK \<Rightarrow> [link_ID h]
      | DIVIDE \<Rightarrow> [child_one_ID h, child_two_ID h]
      | MERGE \<Rightarrow> [parent_one_ID h, parent_two_ID h]
      | _ \<Rightarrow> [])"

definition ids_in_range :: "int \<Rightarrow> Hypothesis \<Rightarrow> bool" where
  "ids_in_range N h = list_all (\<lambda>i. 1 \<le> i \<and> i \<le> N) (ID h # aux_refs h)"

text \<open>
  What \<^verbatim>\<open>optimise\<close> passes to the solver: the constraints it has built, made into
  the arguments of the call; or the exception raised before the call.
\<close>

definition handed_to_solver :: "Hypothesis list \<Rightarrow> error + ilp_args" where
  "handed_to_solver hyps =
     bind_err (constraints hyps) (\<lambda>(N, M, rho). ilp_problem N (length hyps) M rho)"

text \<open>
  The rows of the matrix of \<open>2N\<close> rows that receive a one in the column of \<open>h\<close>: the
  rows of its line of the table, as the indexing of \<^verbatim>\<open>cvxopt\<close> resolves them.
\<close>

definition rows_written :: "int \<Rightarrow> Hypothesis \<Rightarrow> nat set" where
  "rows_written N h = (\<lambda>i. cwrap i (nat (2 * N))) ` set (table_rows N h)"

text \<open>
  A hypothesis with an auxiliary reference whose row lies past the last row of the matrix
  of \<open>2N\<close> rows: the head row \<open>N + ref - 1\<close> of a link target or of a child when
  \<open>ref > N\<close>, the tail row \<open>ref - 1\<close> of a parent when \<open>ref > 2N\<close>.
\<close>

definition out_of_matrix :: "int \<Rightarrow> Hypothesis \<Rightarrow> bool" where
  "out_of_matrix N h =
     (case htype h of
        LINK \<Rightarrow> N < link_ID h
      | DIVIDE \<Rightarrow> N < child_one_ID h \<or> N < child_two_ID h
      | MERGE \<Rightarrow> 2 * N < parent_one_ID h \<or> 2 * N < parent_two_ID h
      | _ \<Rightarrow> False)"

text \<open>
  The exception of the build of a pool whose first hypothesis of an unrecognised type comes
  after the hypotheses \<open>pre\<close>: that of the creation of the matrix when \<open>N\<close> is
  negative; the \<^verbatim>\<open>ValueError\<close> of the last branch when each hypothesis of \<open>pre\<close>
  assigns rows of the matrix only; otherwise the \<^verbatim>\<open>IndexError\<close> of the first
  assignment outside the matrix.
\<close>

definition first_failure :: "int \<Rightarrow> Hypothesis list \<Rightarrow> error" where
  "first_failure N pre =
     (if N < 0 then TypeError
      else if list_all (\<lambda>g. list_all (\<lambda>r. \<not> out_rng r (nat (2 * N))) (table_rows N g)) pre
           then ValueError
      else IndexError)"

text \<open>The first record \<^verbatim>\<open>optimise\<close> logs.\<close>

definition setting_up :: "level \<times> string" where
  "setting_up = (INFO, ''Setting up constraints matrix for global optimisation...'')"

section \<open>Concrete pools\<close>

text \<open>A hypothesis without auxiliary references, and the three kinds that carry them.\<close>

definition plain :: "Fates \<Rightarrow> int \<Rightarrow> real \<Rightarrow> Hypothesis" where
  "plain t i ll =
     \<lparr>ID = i, htype = t, log_likelihood = ll, link_ID = 0,
      child_one_ID = 0, child_two_ID = 0, parent_one_ID = 0, parent_two_ID = 0\<rparr>"

definition link :: "int \<Rightarrow> int \<Rightarrow> real \<Rightarrow> Hypothesis" where
  "link i j ll = (plain LINK i ll)\<lparr>link_ID := j\<rparr>"

definition branch :: "int \<Rightarrow> int \<Rightarrow> int \<Rightarrow> real \<Rightarrow> Hypothesis" where
  "branch i c1 c2 ll = (plain DIVIDE i ll)\<lparr>child_one_ID := c1, child_two_ID := c2\<rparr>"

definition merge :: "int \<Rightarrow> int \<Rightarrow> int \<Rightarrow> real \<Rightarrow> Hypothesis" where
  "merge i p1 p2 ll = (plain MERGE i ll)\<lparr>parent_one_ID := p1, parent_two_ID := p2\<rparr>"

text \<open>Scenario A of the specification: one tracklet that starts and ends.\<close>

definition scenario_A :: "Hypothesis list" where
  "scenario_A = [plain INITIALIZE 1 0, plain TERMINATE 1 0]"

text \<open>Scenario B of the specification, in its order.\<close>

definition scenario_B :: "Hypothesis list" where
  "scenario_B = [plain TERMINATE 1 (-2), plain INITIALIZE 2 (-2), link 1 2 (- (1 / 10))]"

text \<open>A pool with one hypothesis of each kind over three tracklets.\<close>

definition seven_kinds :: "Hypothesis list" where
  "seven_kinds =
     [plain FALSE_POSITIVE 1 (-5), plain INITIALIZE 2 (-1), plain TERMINATE 2 (-1),
      plain APOPTOSIS 3 (-3), link 1 2 (-2), branch 1 2 3 (-4), merge 3 1 2 (-6)]"

text \<open>A pool whose identifiers leave out tracklet 2.\<close>

definition gap_pool :: "Hypothesis list" where
  "gap_pool = [plain FALSE_POSITIVE 1 0, plain FALSE_POSITIVE 3 0]"

text \<open>A merge whose parents are beyond the largest subject identifier, and a termination.\<close>

definition merge_beyond :: "Hypothesis list" where
  "merge_beyond = [merge 1 2 2 0, plain TERMINATE 1 0]"

text \<open>A link to a tracklet beyond the matrix, followed by a hypothesis of an unknown kind.\<close>

definition link_then_unknown :: "Hypothesis list" where
  "link_then_unknown = [link 1 5 0, plain (UNRECOGNISED 99) 1 0]"

text \<open>A hypothesis of an unknown kind followed by a link to a tracklet beyond the matrix.\<close>

definition unknown_then_link :: "Hypothesis list" where
  "unknown_then_link = [plain (UNRECOGNISED 99) 1 0, link 1 5 0]"

text \<open>A false positive followed by a hypothesis of an unknown kind whose identifier is 0.\<close>

definition unknown_zero_id :: "Hypothesis list" where
  "unknown_zero_id = [plain FALSE_POSITIVE 1 0, plain (UNRECOGNISED 99) 0 0]"

text \<open>
  A solver that finds nothing and only reports, in its status, whether the program it is
  handed has the costs, the right-hand sides, the index sets and the shape of the program
  of scenario B.
\<close>

definition probe :: solver where
  "probe p =
     Inr (if ilp_c p = [2, 2, 1 / 10] \<and> ilp_b p = [1, 1, 1, 1] \<and> ilp_h p = [0, 0, 0, 0]
             \<and> ilp_I p = {} \<and> ilp_B p = {0..<3}
             \<and> nrows (ilp_A p) = 4 \<and> ncols (ilp_A p) = 3
          then ''seen'' else ''other'', None)"

section \<open>Sequencing and assignment\<close>

lemma bind_err_Inl [simp]: "bind_err (Inl e) f = Inl e"
  by (simp add: bind_err_def)

lemma bind_err_Inr [simp]: "bind_err (Inr v) f = f v"
  by (simp add: bind_err_def)

lemma bind_err_eq_Inr: "bind_err m f = Inr r \<longleftrightarrow> (\<exists>v. m = Inr v \<and> f v = Inr r)"
  by (cases m) simp_all

lemma bind_err_eq_Inl: "bind_err m f = Inl e \<longleftrightarrow> m = Inl e \<or> (\<exists>v. m = Inr v \<and> f v = Inl e)"
  by (cases m) simp_all

lemma bind_err_return [simp]: "bind_err m Inr = m"
  by (cases m) simp_all

lemma encode_table:
  "encode N c h M =
     (if recognised (htype h) then assign_rows M (table_rows N h) c else Inl ValueError)"
  by (cases "htype h") (simp_all add: encode_def table_rows_def trk_idx_def recognised_def Let_def)

lemma setitem_eq_Inr:
  "setitem M i j v = Inr M' \<longleftrightarrow>
     \<not> out_rng i (nrows M) \<and> j < ncols M \<and>
     M' = M\<lparr>entries := (entries M)((cwrap i (nrows M), j) \<mapsto> v)\<rparr>"
  by (auto simp: setitem_def out_rng_def)

lemma setitem_eq_Inl:
  "setitem M i j v = Inl e \<longleftrightarrow> e = IndexError \<and> (out_rng i (nrows M) \<or> ncols M \<le> j)"
  by (auto simp: setitem_def out_rng_def)

lemma assign_rows_shape:
  "assign_rows M rs c = Inr M' \<Longrightarrow> nrows M' = nrows M \<and> ncols M' = ncols M"
  by (induction rs arbitrary: M) (auto simp: bind_err_eq_Inr setitem_eq_Inr)

lemma assign_rows_entries:
  "assign_rows M rs c = Inr M' \<Longrightarrow>
     entries M' (r, j) =
       (if j = c \<and> r \<in> (\<lambda>i. cwrap i (nrows M)) ` set rs then Some 1 else entries M (r, j))"
  by (induction rs arbitrary: M) (auto simp: bind_err_eq_Inr setitem_eq_Inr)

lemma assign_rows_ok:
  "c < ncols M \<Longrightarrow> \<forall>r\<in>set rs. \<not> out_rng r (nrows M) \<Longrightarrow> \<exists>M'. assign_rows M rs c = Inr M'"
  by (induction rs arbitrary: M) (auto simp: bind_err_eq_Inr setitem_eq_Inr)

lemma assign_rows_Inr_range:
  "assign_rows M rs c = Inr M' \<Longrightarrow> r \<in> set rs \<Longrightarrow> \<not> out_rng r (nrows M)"
  by (induction rs arbitrary: M) (fastforce simp: bind_err_eq_Inr setitem_eq_Inr)+

lemma assign_rows_Inl:
  "assign_rows M rs c = Inl e \<Longrightarrow> e = IndexError"
  by (induction rs arbitrary: M) (auto simp: bind_err_eq_Inl setitem_eq_Inl)

lemma assign_rows_out_of_range:
  "r \<in> set rs \<Longrightarrow> out_rng r (nrows M) \<Longrightarrow> assign_rows M rs c = Inl IndexError"
  by (induction rs arbitrary: M) (auto simp: bind_err_def setitem_def split: sum.splits)


lemma encode_shape:
  "encode N c h M = Inr M' \<Longrightarrow> nrows M' = nrows M \<and> ncols M' = ncols M"
  by (auto simp: encode_table split: if_splits dest: assign_rows_shape)

lemma table_rows_nonempty: "recognised (htype h) \<Longrightarrow> table_rows N h \<noteq> []"
  by (cases "htype h") (simp_all add: table_rows_def recognised_def Let_def)

lemma build_loop_shape:
  "build_loop N c hs (M, rho) = Inr (M', rho') \<Longrightarrow>
     nrows M' = nrows M \<and> ncols M' = ncols M \<and> length rho' = length rho"
proof (induction hs arbitrary: c M rho)
  case Nil
  then show ?case by simp
next
  case (Cons h hs)
  from Cons.prems obtain M1 where
    e: "encode N c h M = Inr M1" and
    l: "build_loop N (Suc c) hs (M1, rho[c := log_likelihood h]) = Inr (M', rho')"
    by (auto simp: bind_err_eq_Inr)
  from Cons.IH [OF l] encode_shape [OF e] show ?case by simp
qed

lemma build_loop_entries:
  "build_loop N c hs (M, rho) = Inr (M', rho') \<Longrightarrow>
     entries M' (r, j) =
       (if c \<le> j \<and> j < c + length hs \<and>
           r \<in> (\<lambda>i. cwrap i (nrows M)) ` set (table_rows N (hs ! (j - c)))
        then Some 1 else entries M (r, j))"
proof (induction hs arbitrary: c M rho)
  case Nil
  then show ?case by auto
next
  case (Cons h hs)
  from Cons.prems obtain M1 where
    e: "encode N c h M = Inr M1" and
    l: "build_loop N (Suc c) hs (M1, rho[c := log_likelihood h]) = Inr (M', rho')"
    by (auto simp: bind_err_eq_Inr)
  from e have rec: "recognised (htype h)" and a: "assign_rows M (table_rows N h) c = Inr M1"
    by (auto simp: encode_table split: if_splits)
  have sh: "nrows M1 = nrows M" using encode_shape [OF e] by simp
  have m1: "entries M1 (r, j) =
      (if j = c \<and> r \<in> (\<lambda>i. cwrap i (nrows M)) ` set (table_rows N h) then Some 1
       else entries M (r, j))"
    by (rule assign_rows_entries [OF a])
  show ?case
  proof (cases "j = c")
    case True
    then show ?thesis using Cons.IH [OF l] m1 by simp
  next
    case False
    show ?thesis
    proof (cases "Suc c \<le> j")
      case True
      then have "j - c = Suc (j - Suc c)" by arith
      then have "(h # hs) ! (j - c) = hs ! (j - Suc c)" by simp
      then show ?thesis using Cons.IH [OF l] m1 True False sh by auto
    next
      case False
      then show ?thesis using Cons.IH [OF l] m1 \<open>j \<noteq> c\<close> by auto
    qed
  qed
qed

lemma build_loop_rho:
  "build_loop N c hs (M, rho) = Inr (M', rho') \<Longrightarrow> c + length hs \<le> length rho \<Longrightarrow>
     k < length rho \<Longrightarrow>
     rho' ! k = (if c \<le> k \<and> k < c + length hs then log_likelihood (hs ! (k - c)) else rho ! k)"
proof (induction hs arbitrary: c M rho)
  case Nil
  then show ?case by simp
next
  case (Cons h hs)
  from Cons.prems(1) obtain M1 where
    l: "build_loop N (Suc c) hs (M1, rho[c := log_likelihood h]) = Inr (M', rho')"
    by (auto simp: bind_err_eq_Inr)
  have ih: "rho' ! k =
      (if Suc c \<le> k \<and> k < Suc c + length hs then log_likelihood (hs ! (k - Suc c))
       else rho[c := log_likelihood h] ! k)"
    using Cons.IH [OF l] Cons.prems(2,3) by simp
  show ?case
  proof (cases "Suc c \<le> k")
    case True
    then obtain d where "k = Suc c + d" using le_Suc_ex by blast
    then show ?thesis using ih by simp
  next
    case False
    then show ?thesis using ih Cons.prems(2,3) by (cases "k = c") auto
  qed
qed

lemma build_loop_Inr_each:
  "build_loop N c hs (M, rho) = Inr (M', rho') \<Longrightarrow> h \<in> set hs \<Longrightarrow>
     recognised (htype h) \<and> (\<forall>r\<in>set (table_rows N h). \<not> out_rng r (nrows M))"
proof (induction hs arbitrary: c M rho)
  case Nil
  then show ?case by simp
next
  case (Cons a hs)
  from Cons.prems(1) obtain M1 where
    e: "encode N c a M = Inr M1" and
    l: "build_loop N (Suc c) hs (M1, rho[c := log_likelihood a]) = Inr (M', rho')"
    by (auto simp: bind_err_eq_Inr)
  have sh: "nrows M1 = nrows M" using encode_shape [OF e] by simp
  show ?case
  proof (cases "h = a")
    case True
    then show ?thesis using e
      by (auto simp: encode_table split: if_splits dest: assign_rows_Inr_range)
  next
    case False
    then have "h \<in> set hs" using Cons.prems(2) by simp
    from Cons.IH [OF l this] sh show ?thesis by simp
  qed
qed

lemma build_loop_ok:
  "c + length hs \<le> ncols M \<Longrightarrow>
   \<forall>h\<in>set hs. recognised (htype h) \<and> (\<forall>r\<in>set (table_rows N h). \<not> out_rng r (nrows M)) \<Longrightarrow>
   \<exists>M' rho'. build_loop N c hs (M, rho) = Inr (M', rho')"
proof (induction hs arbitrary: c M rho)
  case Nil
  then show ?case by simp
next
  case (Cons a hs)
  from Cons.prems obtain M1 where a: "assign_rows M (table_rows N a) c = Inr M1"
    using assign_rows_ok [of c M "table_rows N a"] by auto
  then have e: "encode N c a M = Inr M1" using Cons.prems by (simp add: encode_table)
  have sh: "nrows M1 = nrows M" "ncols M1 = ncols M" using encode_shape [OF e] by simp_all
  have "\<exists>M' rho'. build_loop N (Suc c) hs (M1, rho[c := log_likelihood a]) = Inr (M', rho')"
    using Cons.prems sh by (intro Cons.IH) auto
  then show ?case using e by simp
qed

lemma encode_Inl: "encode N c h M = Inl e \<Longrightarrow> e = ValueError \<or> e = IndexError"
  by (auto simp: encode_table split: if_splits dest: assign_rows_Inl)

lemma build_loop_Inl:
  "build_loop N c hs (M, rho) = Inl e \<Longrightarrow> e = ValueError \<or> e = IndexError"
proof (induction hs arbitrary: c M rho)
  case Nil
  then show ?case by simp
next
  case (Cons a hs)
  then show ?case by (auto simp: bind_err_eq_Inl dest: encode_Inl)
qed

lemma max_ID_cases:
  "(hyps = [] \<and> max_ID hyps = Inl ValueError) \<or>
   (hyps \<noteq> [] \<and> max_ID hyps = Inr (Max (set (map ID hyps))))"
  by (simp add: max_ID_def)

lemma constraints_steps:
  "max_ID hyps = Inr N \<Longrightarrow>
   constraints hyps =
     (if N < 0 then Inl TypeError
      else bind_err
        (build_loop N 0 hyps
           (\<lparr>nrows = nat (2 * N), ncols = length hyps, entries = Map.empty\<rparr>,
            replicate (length hyps) 0))
        (\<lambda>(M, rho). Inr (N, M, rho)))"
  by (simp add: constraints_def spmatrix_new_def Let_def)

lemma constraints_empty: "constraints [] = Inl ValueError"
  by (simp add: constraints_def max_ID_def)

lemma constraints_Inr:
  assumes "constraints hyps = Inr (N, M, rho)"
  shows "hyps \<noteq> []" and "N = Max (set (map ID hyps))" and "0 \<le> N"
    and "nrows M = nat (2 * N)" and "ncols M = length hyps" and "length rho = length hyps"
    and "build_loop N 0 hyps
           (\<lparr>nrows = nat (2 * N), ncols = length hyps, entries = Map.empty\<rparr>,
            replicate (length hyps) 0) = Inr (M, rho)"
proof -
  show ne: "hyps \<noteq> []" using assms constraints_empty by auto
  then have m: "max_ID hyps = Inr (Max (set (map ID hyps)))"
    using max_ID_cases [of hyps] by simp
  from assms constraints_steps [OF m] show n: "N = Max (set (map ID hyps))"
    by (auto simp: bind_err_eq_Inr split: if_splits)
  from assms constraints_steps [OF m] n show pos: "0 \<le> N"
    by (auto split: if_splits)
  from assms constraints_steps [OF m] n show l: "build_loop N 0 hyps
           (\<lparr>nrows = nat (2 * N), ncols = length hyps, entries = Map.empty\<rparr>,
            replicate (length hyps) 0) = Inr (M, rho)"
    by (auto simp: bind_err_eq_Inr split: if_splits)
  from build_loop_shape [OF l]
  show "nrows M = nat (2 * N)" and "ncols M = length hyps" and "length rho = length hyps"
    by simp_all
qed

lemma constraints_entries:
  assumes "constraints hyps = Inr (N, M, rho)"
  shows "entries M (r, j) =
     (if j < length hyps \<and> r \<in> (\<lambda>i. cwrap i (nat (2 * N))) ` set (table_rows N (hyps ! j))
      then Some 1 else None)"
  using build_loop_entries [OF constraints_Inr(7) [OF assms], of r j] by simp

lemma constraints_rho:
  assumes "constraints hyps = Inr (N, M, rho)"
  shows "rho = map log_likelihood hyps"
proof (rule nth_equalityI)
  show "length rho = length (map log_likelihood hyps)"
    using constraints_Inr(6) [OF assms] by simp
next
  fix k assume "k < length rho"
  then have k: "k < length hyps" using constraints_Inr(6) [OF assms] by simp
  then show "rho ! k = map log_likelihood hyps ! k"
    using build_loop_rho [OF constraints_Inr(7) [OF assms], of k] by simp
qed

lemma constraints_each:
  assumes "constraints hyps = Inr (N, M, rho)" and "h \<in> set hyps"
  shows "recognised (htype h)" and "r \<in> set (table_rows N h) \<Longrightarrow> \<not> out_rng r (nat (2 * N))"
  using build_loop_Inr_each [OF constraints_Inr(7) [OF assms(1)] assms(2)] by simp_all

lemma constraints_N_pos:
  assumes "constraints hyps = Inr (N, M, rho)"
  shows "1 \<le> N"
proof -
  from constraints_Inr(1) [OF assms] obtain h where h: "h \<in> set hyps"
    by (cases hyps) auto
  from constraints_each(1) [OF assms h] obtain r where r: "r \<in> set (table_rows N h)"
    using table_rows_nonempty [of h N] by (cases "table_rows N h") auto
  from constraints_each(2) [OF assms h r] constraints_Inr(3) [OF assms] show ?thesis
    by (simp add: out_rng_def)
qed

lemma constraints_ok:
  assumes "hyps \<noteq> []" and "N = Max (set (map ID hyps))" and "0 \<le> N"
    and "\<forall>h\<in>set hyps. recognised (htype h) \<and>
           (\<forall>r\<in>set (table_rows N h). \<not> out_rng r (nat (2 * N)))"
  shows "\<exists>M rho. constraints hyps = Inr (N, M, rho)"
proof -
  let ?A0 = "\<lparr>nrows = nat (2 * N), ncols = length hyps, entries = Map.empty\<rparr>"
  have m: "max_ID hyps = Inr N" using assms(1,2) max_ID_cases [of hyps] by simp
  have "\<exists>M rho. build_loop N 0 hyps (?A0, replicate (length hyps) 0) = Inr (M, rho)"
    using assms(4) by (intro build_loop_ok) simp_all
  then show ?thesis using assms(3) constraints_steps [OF m] by auto
qed

lemma constraints_Inl:
  assumes "constraints hyps = Inl e"
  shows "e = ValueError \<or> e = IndexError \<or> e = TypeError"
proof (cases "hyps = []")
  case True
  then show ?thesis using assms constraints_empty by simp
next
  case False
  then have m: "max_ID hyps = Inr (Max (set (map ID hyps)))"
    using max_ID_cases [of hyps] by simp
  from assms constraints_steps [OF m] show ?thesis
    by (auto simp: bind_err_eq_Inl split: if_splits dest: build_loop_Inl)
qed

lemma ids_in_range_rows:
  "ids_in_range N h \<Longrightarrow> r \<in> set (table_rows N h) \<Longrightarrow> 0 \<le> r \<and> r < 2 * N"
  by (cases "htype h") (auto simp: ids_in_range_def aux_refs_def table_rows_def Let_def)

lemma in_range_not_out: "0 \<le> r \<Longrightarrow> r < 2 * N \<Longrightarrow> \<not> out_rng r (nat (2 * N))"
  by (simp add: out_rng_def)

lemma ilp_problem_Inr:
  "0 \<le> N \<Longrightarrow> ilp_problem N n M rho =
     Inr \<lparr>ilp_c = map uminus rho,
          ilp_G = \<lparr>nrows = nat (2 * N), ncols = n, entries = Map.empty\<rparr>,
          ilp_h = replicate (nat (2 * N)) 0, ilp_A = M,
          ilp_b = replicate (nat (2 * N)) 1, ilp_I = {}, ilp_B = {0..<n}\<rparr>"
  by (simp add: ilp_problem_def spmatrix_new_def spmatrix_neg_def fun_eq_iff)

lemma optimise_build_fails:
  "constraints (hypotheses self) = Inl e \<Longrightarrow> optimise ilp self lg = (Inl e, lg @ [setting_up])"
  by (simp add: optimise_def setting_up_def)

lemma optimise_handed:
  "handed_to_solver (hypotheses self) = Inr p \<Longrightarrow>
   optimise ilp self lg =
     (let lg2 = lg @ [setting_up, (INFO, ''Optimising...'')] in
      case ilp p of
        Inl e \<Rightarrow> (Inl e, lg2)
      | Inr (status, x) \<Rightarrow>
          if status \<noteq> ''optimal'' then
            (Inr [], lg2 @ [(WARNING, ''Optimizer returned status: '' @ status)])
          else
            (case x of
               None \<Rightarrow> (Inl TypeError, lg2)
             | Some xv \<Rightarrow>
                 (case selected xv 0 (hypotheses self) of
                    Inl e \<Rightarrow> (Inl e, lg2)
                  | Inr results \<Rightarrow>
                      (Inr results,
                       lg2 @ [(INFO, ''Optimisation complete. (Solution: '' @ status @ '')'')]))))"
  by (auto simp: handed_to_solver_def optimise_def setting_up_def bind_err_eq_Inr Let_def
      split: sum.splits)

lemma handed_Inl:
  "handed_to_solver hyps = Inl e \<longleftrightarrow> constraints hyps = Inl e"
proof
  assume "handed_to_solver hyps = Inl e"
  then show "constraints hyps = Inl e"
    by (cases "constraints hyps")
       (auto simp: handed_to_solver_def ilp_problem_Inr dest: constraints_Inr(3))
next
  assume "constraints hyps = Inl e"
  then show "handed_to_solver hyps = Inl e" by (simp add: handed_to_solver_def)
qed

lemma selected_filter:
  "i + length hs \<le> length x \<Longrightarrow>
   selected x i hs = Inr (filter (\<lambda>j. 0 < x ! j) [i..<i + length hs])"
proof (induction hs arbitrary: i)
  case Nil
  then show ?case by simp
next
  case (Cons h hs)
  have ih: "selected x (Suc i) hs = Inr (filter (\<lambda>j. 0 < x ! j) [Suc i..<Suc i + length hs])"
    using Cons.prems by (intro Cons.IH) simp
  have u: "[i..<i + length (h # hs)] = i # [Suc i..<Suc i + length hs]"
    by (simp add: upt_conv_Cons del: upt_Suc)
  have l: "\<not> length x \<le> i" using Cons.prems by simp
  show ?case unfolding u selected.simps ih using l by (simp del: upt_Suc)
qed

text \<open>The reference solver reports \<^verbatim>\<open>'optimal'\<close> only with a vector that satisfies the program.\<close>

lemma cheapest_mem: "cheapest c best vs \<in> set (best # vs)"
  by (induction vs arbitrary: best) (auto split: if_splits)

lemma exhaustive_ilp_sound: "exhaustive_ilp p = Inr ans \<Longrightarrow> sound_answer p ans"
proof (cases "filter (feasible p) (binary_vectors (length (ilp_c p)))")
  case Nil
  assume "exhaustive_ilp p = Inr ans"
  with Nil have "ans = (''infeasible'', None)" by (simp add: exhaustive_ilp_def)
  then show ?thesis by (simp add: sound_answer_def)
next
  case (Cons v vs)
  assume "exhaustive_ilp p = Inr ans"
  with Cons have ans: "ans = (''optimal'', Some (cheapest (ilp_c p) v vs))"
    by (simp add: exhaustive_ilp_def)
  have "cheapest (ilp_c p) v vs \<in> set (filter (feasible p) (binary_vectors (length (ilp_c p))))"
    using cheapest_mem [of "ilp_c p" v vs] Cons by simp
  then have "feasible p (cheapest (ilp_c p) v vs)" by simp
  with ans show ?thesis by (simp add: sound_answer_def)
qed

section \<open>Evaluating the concrete pools\<close>

lemmas pool_defs = plain_def link_def branch_def merge_def scenario_A_def scenario_B_def
  seven_kinds_def gap_pool_def merge_beyond_def link_then_unknown_def unknown_then_link_def
  unknown_zero_id_def

lemmas build_defs = constraints_def max_ID_def spmatrix_new_def encode_def setitem_def
  out_rng_def cwrap_def trk_idx_def Let_def

lemma seven_kinds_built: "\<exists>M rho. constraints seven_kinds = Inr (3, M, rho)"
  by (simp add: pool_defs build_defs)

lemma nat_image_iff:
  assumes "\<forall>i\<in>set rs. 0 \<le> i"
  shows "r \<in> (\<lambda>i. cwrap i d) ` set rs \<longleftrightarrow> int r \<in> set rs"
proof
  assume "r \<in> (\<lambda>i. cwrap i d) ` set rs"
  then obtain i where i: "i \<in> set rs" and r: "r = cwrap i d" by auto
  from i assms have "0 \<le> i" by simp
  with r have "int r = i" by (simp add: cwrap_def)
  with i show "int r \<in> set rs" by simp
next
  assume m: "int r \<in> set rs"
  have "cwrap (int r) d = r" by (simp add: cwrap_def)
  with m show "r \<in> (\<lambda>i. cwrap i d) ` set rs" by force
qed

section \<open>The claims\<close>

text \<open>
  Claim C1. Whenever \<^verbatim>\<open>optimise\<close> builds its constraint matrix, the column of
  every hypothesis \<open>j\<close> of the pool holds a one exactly at the rows the table of section
  4.2 gives for its type and nothing anywhere else: no other entry is even stored, so
  every other position reads as zero. The rows of the table are rows of a matrix, that
  is nonnegative, as they are when the identifiers of the hypothesis are at least 1.
\<close>

theorem column_pattern:
  assumes "constraints hyps = Inr (N, M, rho)" and "j < length hyps"
    and "\<forall>i\<in>set (table_rows N (hyps ! j)). 0 \<le> i"
  shows "entries M (r, j) = (if int r \<in> set (table_rows N (hyps ! j)) then Some 1 else None)
       \<and> getitem M r j = (if int r \<in> set (table_rows N (hyps ! j)) then 1 else 0)"
proof -
  have "entries M (r, j) =
      (if int r \<in> set (table_rows N (hyps ! j)) then Some 1 else None)"
    using constraints_entries [OF assms(1), of r j] assms(2) nat_image_iff [OF assms(3)]
    by simp
  then show ?thesis by (simp add: getitem_def)
qed

text \<open>
  The pool with one hypothesis of each kind (three tracklets, six rows): its seven columns,
  each read from row 0 to row 5.
\<close>

theorem column_pattern_witness:
  "\<exists>M rho. constraints seven_kinds = Inr (3, M, rho)
     \<and> map (\<lambda>j. map (\<lambda>r. getitem M r j) [0..<6]) [0..<7] =
         [[1, 0, 0, 1, 0, 0],
          [0, 0, 0, 0, 1, 0],
          [0, 1, 0, 0, 0, 0],
          [0, 0, 1, 0, 0, 0],
          [1, 0, 0, 0, 1, 0],
          [1, 0, 0, 0, 1, 1],
          [1, 1, 0, 0, 0, 1]]"
proof -
  from seven_kinds_built obtain M rho where b: "constraints seven_kinds = Inr (3, M, rho)"
    by blast
  have len: "length seven_kinds = 7" by (simp add: seven_kinds_def)
  have t0: "table_rows 3 (seven_kinds ! 0) = [0, 3]"
    by (simp add: pool_defs table_rows_def)
  have p0: "\<forall>i\<in>set (table_rows 3 (seven_kinds ! 0)). 0 \<le> i"
    unfolding t0 by simp
  have l0: "0 < length seven_kinds" unfolding len by simp
  have g0: "\<And>r. getitem M r 0 = (if int r \<in> set [0, 3] then 1 else 0)"
    using column_pattern [OF b l0 p0] unfolding t0 by blast
  have c0: "map (\<lambda>r. getitem M r 0) [0..<6] = [1, 0, 0, 1, 0, 0]"
    unfolding g0 by (simp add: upt_conv_Cons)
  have t1: "table_rows 3 (seven_kinds ! 1) = [4]"
    by (simp add: pool_defs table_rows_def)
  have p1: "\<forall>i\<in>set (table_rows 3 (seven_kinds ! 1)). 0 \<le> i"
    unfolding t1 by simp
  have l1: "1 < length seven_kinds" unfolding len by simp
  have g1: "\<And>r. getitem M r 1 = (if int r \<in> set [4] then 1 else 0)"
    using column_pattern [OF b l1 p1] unfolding t1 by blast
  have c1: "map (\<lambda>r. getitem M r 1) [0..<6] = [0, 0, 0, 0, 1, 0]"
    unfolding g1 by (simp add: upt_conv_Cons)
  have t2: "table_rows 3 (seven_kinds ! 2) = [1]"
    by (simp add: pool_defs table_rows_def)
  have p2: "\<forall>i\<in>set (table_rows 3 (seven_kinds ! 2)). 0 \<le> i"
    unfolding t2 by simp
  have l2: "2 < length seven_kinds" unfolding len by simp
  have g2: "\<And>r. getitem M r 2 = (if int r \<in> set [1] then 1 else 0)"
    using column_pattern [OF b l2 p2] unfolding t2 by blast
  have c2: "map (\<lambda>r. getitem M r 2) [0..<6] = [0, 1, 0, 0, 0, 0]"
    unfolding g2 by (simp add: upt_conv_Cons)
  have t3: "table_rows 3 (seven_kinds ! 3) = [2]"
    by (simp add: pool_defs table_rows_def)
  have p3: "\<forall>i\<in>set (table_rows 3 (seven_kinds ! 3)). 0 \<le> i"
    unfolding t3 by simp
  have l3: "3 < length seven_kinds" unfolding len by simp
  have g3: "\<And>r. getitem M r 3 = (if int r \<in> set [2] then 1 else 0)"
    using column_pattern [OF b l3 p3] unfolding t3 by blast
  have c3: "map (\<lambda>r. getitem M r 3) [0..<6] = [0, 0, 1, 0, 0, 0]"
    unfolding g3 by (simp add: upt_conv_Cons)
  have t4: "table_rows 3 (seven_kinds ! 4) = [0, 4]"
    by (simp add: pool_defs table_rows_def)
  have p4: "\<forall>i\<in>set (table_rows 3 (seven_kinds ! 4)). 0 \<le> i"
    unfolding t4 by simp
  have l4: "4 < length seven_kinds" unfolding len by simp
  have g4: "\<And>r. getitem M r 4 = (if int r \<in> set [0, 4] then 1 else 0)"
    using column_pattern [OF b l4 p4] unfolding t4 by blast
  have c4: "map (\<lambda>r. getitem M r 4) [0..<6] = [1, 0, 0, 0, 1, 0]"
    unfolding g4 by (simp add: upt_conv_Cons)
  have t5: "table_rows 3 (seven_kinds ! 5) = [0, 4, 5]"
    by (simp add: pool_defs table_rows_def)
  have p5: "\<forall>i\<in>set (table_rows 3 (seven_kinds ! 5)). 0 \<le> i"
    unfolding t5 by simp
  have l5: "5 < length seven_kinds" unfolding len by simp
  have g5: "\<And>r. getitem M r 5 = (if int r \<in> set [0, 4, 5] then 1 else 0)"
    using column_pattern [OF b l5 p5] unfolding t5 by blast
  have c5: "map (\<lambda>r. getitem M r 5) [0..<6] = [1, 0, 0, 0, 1, 1]"
    unfolding g5 by (simp add: upt_conv_Cons)
  have t6: "table_rows 3 (seven_kinds ! 6) = [5, 0, 1]"
    by (simp add: pool_defs table_rows_def)
  have p6: "\<forall>i\<in>set (table_rows 3 (seven_kinds ! 6)). 0 \<le> i"
    unfolding t6 by simp
  have l6: "6 < length seven_kinds" unfolding len by simp
  have g6: "\<And>r. getitem M r 6 = (if int r \<in> set [5, 0, 1] then 1 else 0)"
    using column_pattern [OF b l6 p6] unfolding t6 by blast
  have c6: "map (\<lambda>r. getitem M r 6) [0..<6] = [1, 1, 0, 0, 0, 1]"
    unfolding g6 by (simp add: upt_conv_Cons)
  have "[0..<7] = [0, 1, 2, 3, 4, 5, 6::nat]" by (simp add: upt_conv_Cons)
  then have "map (\<lambda>j. map (\<lambda>r. getitem M r j) [0..<6]) [0..<7] =
         [[1, 0, 0, 1, 0, 0],
          [0, 0, 0, 0, 1, 0],
          [0, 1, 0, 0, 0, 0],
          [0, 0, 1, 0, 0, 0],
          [1, 0, 0, 0, 1, 0],
          [1, 0, 0, 0, 1, 1],
          [1, 1, 0, 0, 0, 1]]"
    using c0 c1 c2 c3 c4 c5 c6 by (simp del: upt_Suc)
  with b show ?thesis by (intro exI conjI)
qed

subsection \<open>The program of the solver\<close>

lemma handed_Inr:
  assumes "constraints hyps = Inr (N, M, rho)"
  shows "handed_to_solver hyps =
     Inr \<lparr>ilp_c = map uminus rho,
          ilp_G = \<lparr>nrows = nat (2 * N), ncols = length hyps, entries = Map.empty\<rparr>,
          ilp_h = replicate (nat (2 * N)) 0, ilp_A = M,
          ilp_b = replicate (nat (2 * N)) 1, ilp_I = {}, ilp_B = {0..<length hyps}\<rparr>"
  using assms constraints_Inr(3) [OF assms] by (simp add: handed_to_solver_def ilp_problem_Inr)

lemma row_dot_empty: "row_dot \<lparr>nrows = m, ncols = n, entries = Map.empty\<rparr> i x = 0"
  by (simp add: row_dot_def getitem_def)

text \<open>
  Claim C2. Whenever the constraints are built there is one program \<open>p\<close> on which
  \<^verbatim>\<open>optimise\<close> calls the solver, whatever the solver: the outcome of
  \<^verbatim>\<open>optimise\<close> is the exception the solver raises on \<open>p\<close>, or what the rest of
  the function makes of the status and the vector the solver returns on \<open>p\<close>. In \<open>p\<close>
  the cost of hypothesis \<open>j\<close> is the negated log-likelihood of hypothesis \<open>j\<close>; the
  equalities are \<open>A x = b\<close> with the matrix built and \<open>b\<close> all ones; the block \<open>G\<close>
  is zero everywhere and \<open>h\<close> is zero, so \<open>G x \<le> h\<close> holds of every \<open>x\<close>; no
  variable is integer without being binary (\<open>I\<close> is empty) and every variable is binary
  (\<open>B\<close> is \<open>0..n-1\<close>). So a vector solves \<open>p\<close> exactly when it has \<open>n\<close>
  components, each 0 or 1, and \<open>A x = b\<close>.
\<close>

theorem program_handed_to_solver:
  assumes "constraints (hypotheses self) = Inr (N, M, rho)"
  shows "\<exists>p.
     (\<forall>ilp lg. optimise ilp self lg =
        (let lg2 = lg @ [setting_up, (INFO, ''Optimising...'')] in
         case ilp p of
           Inl e \<Rightarrow> (Inl e, lg2)
         | Inr (status, x) \<Rightarrow>
             if status \<noteq> ''optimal'' then
               (Inr [], lg2 @ [(WARNING, ''Optimizer returned status: '' @ status)])
             else
               (case x of
                  None \<Rightarrow> (Inl TypeError, lg2)
                | Some xv \<Rightarrow>
                    (case selected xv 0 (hypotheses self) of
                       Inl e \<Rightarrow> (Inl e, lg2)
                     | Inr results \<Rightarrow>
                         (Inr results,
                          lg2 @ [(INFO, ''Optimisation complete. (Solution: '' @ status @ '')'')])))))
     \<and> handed_to_solver (hypotheses self) = Inr p
     \<and> ilp_c p = map (\<lambda>h. - log_likelihood h) (hypotheses self)
     \<and> ilp_A p = M
     \<and> ilp_b p = replicate (nat (2 * N)) 1
     \<and> ilp_I p = {}
     \<and> ilp_B p = {0..<length (hypotheses self)}
     \<and> nrows (ilp_G p) = nat (2 * N) \<and> ncols (ilp_G p) = length (hypotheses self)
     \<and> (\<forall>i j. getitem (ilp_G p) i j = 0)
     \<and> ilp_h p = replicate (nat (2 * N)) 0
     \<and> (\<forall>x i. i < nat (2 * N) \<longrightarrow> row_dot (ilp_G p) i x \<le> ilp_h p ! i)
     \<and> (\<forall>x. feasible p x \<longleftrightarrow>
            length x = length (hypotheses self)
            \<and> (\<forall>i<nat (2 * N). row_dot M i x = 1)
            \<and> (\<forall>j<length (hypotheses self). x ! j = 0 \<or> x ! j = 1))"
proof -
  let ?n = "length (hypotheses self)"
  let ?p = "\<lparr>ilp_c = map uminus rho,
          ilp_G = \<lparr>nrows = nat (2 * N), ncols = ?n, entries = Map.empty\<rparr>,
          ilp_h = replicate (nat (2 * N)) 0, ilp_A = M,
          ilp_b = replicate (nat (2 * N)) 1, ilp_I = {}, ilp_B = {0..<?n}\<rparr>"
  have h: "handed_to_solver (hypotheses self) = Inr ?p" by (rule handed_Inr [OF assms])
  have rho: "rho = map log_likelihood (hypotheses self)" by (rule constraints_rho [OF assms])
  have sh: "nrows M = nat (2 * N)" by (rule constraints_Inr(4) [OF assms])
  have o: "\<forall>ilp lg. optimise ilp self lg =
        (let lg2 = lg @ [setting_up, (INFO, ''Optimising...'')] in
         case ilp ?p of
           Inl e \<Rightarrow> (Inl e, lg2)
         | Inr (status, x) \<Rightarrow>
             if status \<noteq> ''optimal'' then
               (Inr [], lg2 @ [(WARNING, ''Optimizer returned status: '' @ status)])
             else
               (case x of
                  None \<Rightarrow> (Inl TypeError, lg2)
                | Some xv \<Rightarrow>
                    (case selected xv 0 (hypotheses self) of
                       Inl e \<Rightarrow> (Inl e, lg2)
                     | Inr results \<Rightarrow>
                         (Inr results,
                          lg2 @ [(INFO, ''Optimisation complete. (Solution: '' @ status @ '')'')]))))"
    using optimise_handed [OF h] by blast
  have c: "ilp_c ?p = map (\<lambda>h. - log_likelihood h) (hypotheses self)"
    by (simp add: rho)
  have g: "\<forall>i j. getitem (ilp_G ?p) i j = 0" by (simp add: getitem_def)
  have le: "\<forall>x i. i < nat (2 * N) \<longrightarrow> row_dot (ilp_G ?p) i x \<le> ilp_h ?p ! i"
    by (simp add: row_dot_empty)
  have f: "\<forall>x. feasible ?p x \<longleftrightarrow>
            length x = ?n \<and> (\<forall>i<nat (2 * N). row_dot M i x = 1)
            \<and> (\<forall>j<?n. x ! j = 0 \<or> x ! j = 1)"
    by (auto simp: feasible_def list_all_iff row_dot_empty rho sh)
  show ?thesis
    apply (rule exI [of _ ?p])
    apply (intro conjI)
    apply (rule o)
    apply (rule h)
    apply (rule c)
    apply simp
    apply simp
    apply simp
    apply simp
    apply simp
    apply simp
    apply (rule g)
    apply simp
    apply (rule le)
    apply (rule f)
    done
qed

text \<open>
  Scenario B with the solver that reports what it is handed: the warning of
  \<^verbatim>\<open>optimise\<close> carries the status \<open>seen\<close>, so the solver was called on the program
  with the costs 2, 2 and 0.1, four equalities and three binary variables.
\<close>

lemma scenario_B_built: "\<exists>M rho. constraints scenario_B = Inr (2, M, rho)"
  by (simp add: pool_defs build_defs)

theorem program_handed_to_solver_witness:
  "optimise probe \<lparr>hypotheses = scenario_B\<rparr> [] =
     (Inr [], [setting_up, (INFO, ''Optimising...''),
               (WARNING, ''Optimizer returned status: seen'')])
   \<and> (\<exists>p. handed_to_solver scenario_B = Inr p
     \<and> ilp_c p = [2, 2, 1 / 10]
     \<and> ilp_b p = [1, 1, 1, 1]
     \<and> ilp_h p = [0, 0, 0, 0]
     \<and> ilp_I p = {}
     \<and> ilp_B p = {0..<3}
     \<and> nrows (ilp_A p) = 4 \<and> ncols (ilp_A p) = 3)"
proof -
  from scenario_B_built obtain M rho where
    b: "constraints (hypotheses \<lparr>hypotheses = scenario_B\<rparr>) = Inr (2, M, rho)"
    by auto
  from program_handed_to_solver [OF b] obtain p where
    o: "\<forall>ilp lg. optimise ilp \<lparr>hypotheses = scenario_B\<rparr> lg =
        (let lg2 = lg @ [setting_up, (INFO, ''Optimising...'')] in
         case ilp p of
           Inl e \<Rightarrow> (Inl e, lg2)
         | Inr (status, x) \<Rightarrow>
             if status \<noteq> ''optimal'' then
               (Inr [], lg2 @ [(WARNING, ''Optimizer returned status: '' @ status)])
             else
               (case x of
                  None \<Rightarrow> (Inl TypeError, lg2)
                | Some xv \<Rightarrow>
                    (case selected xv 0 (hypotheses \<lparr>hypotheses = scenario_B\<rparr>) of
                       Inl e \<Rightarrow> (Inl e, lg2)
                     | Inr results \<Rightarrow>
                         (Inr results,
                          lg2 @ [(INFO, ''Optimisation complete. (Solution: '' @ status @ '')'')]))))"
    and p: "handed_to_solver scenario_B = Inr p"
      "ilp_c p = map (\<lambda>h. - log_likelihood h) scenario_B"
      "ilp_A p = M"
      "ilp_b p = replicate (nat (2 * 2)) 1"
      "ilp_I p = {}"
      "ilp_B p = {0..<length scenario_B}"
      "ilp_h p = replicate (nat (2 * 2)) 0"
    by auto
  have len: "length scenario_B = 3" by (simp add: scenario_B_def)
  have c: "ilp_c p = [2, 2, 1 / 10]" using p(2) by (simp add: pool_defs)
  have bb: "ilp_b p = [1, 1, 1, 1]" using p(4) by (simp add: eval_nat_numeral)
  have hh: "ilp_h p = [0, 0, 0, 0]" using p(7) by (simp add: eval_nat_numeral)
  have B: "ilp_B p = {0..<3}" using p(6) len by simp
  have sh: "nrows (ilp_A p) = 4" "ncols (ilp_A p) = 3"
    using constraints_Inr(4,5) [OF b] len by (simp_all add: p(3))
  have "probe p = Inr (''seen'', None)"
    unfolding probe_def c bb hh B sh p(5) by simp
  with o have "optimise probe \<lparr>hypotheses = scenario_B\<rparr> [] =
     (Inr [], [setting_up, (INFO, ''Optimising...''),
               (WARNING, ''Optimizer returned status: seen'')])"
    by simp
  with c bb hh B sh p(1) p(5) show ?thesis by (intro conjI exI)
qed

text \<open>
  Claim C3. Whenever the constraints are built, the pool is not empty, \<open>N\<close> is the
  largest subject identifier and is at least 1, \<open>A\<close> has \<open>2N\<close> rows and one column
  for each hypothesis, and \<open>b\<close> is the vector of \<open>2N\<close> ones. They are built for every
  non-empty pool of recognised hypotheses whose identifiers lie between 1 and \<open>N\<close>:
  nothing asks that each of \<open>1..N\<close> be the identifier of some hypothesis.
\<close>

theorem shape_of_constraints:
  "(constraints hyps = Inr (N, M, rho) \<longrightarrow>
      hyps \<noteq> [] \<and> N = Max (set (map ID hyps)) \<and> 1 \<le> N
      \<and> nrows M = nat (2 * N) \<and> ncols M = length hyps
      \<and> (\<exists>p. handed_to_solver hyps = Inr p \<and> ilp_A p = M
              \<and> ilp_b p = replicate (nat (2 * N)) 1))
   \<and> (hyps \<noteq> [] \<and>
       (\<forall>h\<in>set hyps. recognised (htype h) \<and> ids_in_range (Max (set (map ID hyps))) h) \<longrightarrow>
      (\<exists>M rho. constraints hyps = Inr (Max (set (map ID hyps)), M, rho)))"
proof (rule conjI; rule impI)
  assume b: "constraints hyps = Inr (N, M, rho)"
  have "\<exists>p. handed_to_solver hyps = Inr p \<and> ilp_A p = M
              \<and> ilp_b p = replicate (nat (2 * N)) 1"
    by (simp add: handed_Inr [OF b])
  then show "hyps \<noteq> [] \<and> N = Max (set (map ID hyps)) \<and> 1 \<le> N
      \<and> nrows M = nat (2 * N) \<and> ncols M = length hyps
      \<and> (\<exists>p. handed_to_solver hyps = Inr p \<and> ilp_A p = M
              \<and> ilp_b p = replicate (nat (2 * N)) 1)"
    using constraints_Inr(1,2,4,5) [OF b] constraints_N_pos [OF b] by simp
next
  let ?N = "Max (set (map ID hyps))"
  assume a: "hyps \<noteq> [] \<and> (\<forall>h\<in>set hyps. recognised (htype h) \<and> ids_in_range ?N h)"
  then obtain h where h: "h \<in> set hyps" by (cases hyps) auto
  with a have "ids_in_range ?N h" by simp
  then have pos: "0 \<le> ?N" by (simp add: ids_in_range_def)
  have "\<forall>h\<in>set hyps. recognised (htype h) \<and>
           (\<forall>r\<in>set (table_rows ?N h). \<not> out_rng r (nat (2 * ?N)))"
    using a ids_in_range_rows [of ?N] in_range_not_out [of _ ?N] by blast
  with a pos show "\<exists>M rho. constraints hyps = Inr (?N, M, rho)"
    by (intro constraints_ok) simp_all
qed

text \<open>The pool with the identifiers 1 and 3 only: six rows, two columns, six ones.\<close>

theorem shape_of_constraints_witness:
  "\<exists>M rho p. constraints gap_pool = Inr (3, M, rho)
     \<and> 2 \<notin> set (map ID gap_pool)
     \<and> nrows M = 6 \<and> ncols M = 2
     \<and> handed_to_solver gap_pool = Inr p \<and> ilp_b p = [1, 1, 1, 1, 1, 1]"
proof -
  have m: "Max (set (map ID gap_pool)) = 3" by (simp add: pool_defs)
  have ne: "gap_pool \<noteq> []" by (simp add: gap_pool_def)
  have len: "length gap_pool = 2" by (simp add: gap_pool_def)
  have "\<forall>h\<in>set gap_pool. recognised (htype h) \<and> ids_in_range 3 h"
    by (simp add: pool_defs recognised_def ids_in_range_def aux_refs_def)
  then have wf: "gap_pool \<noteq> [] \<and> (\<forall>h\<in>set gap_pool. recognised (htype h) \<and>
      ids_in_range (Max (set (map ID gap_pool))) h)"
    unfolding m using ne by simp
  have "\<exists>M rho. constraints gap_pool = Inr (Max (set (map ID gap_pool)), M, rho)"
    using shape_of_constraints [where hyps = gap_pool] wf by blast
  then obtain M rho where b: "constraints gap_pool = Inr (3, M, rho)"
    unfolding m by blast
  have "nrows M = nat (2 * 3) \<and> ncols M = length gap_pool
      \<and> (\<exists>p. handed_to_solver gap_pool = Inr p \<and> ilp_A p = M
              \<and> ilp_b p = replicate (nat (2 * 3)) 1)"
    using shape_of_constraints [where hyps = gap_pool and N = 3 and M = M and rho = rho] b
    by blast
  then obtain p where "nrows M = 6" "ncols M = 2"
    "handed_to_solver gap_pool = Inr p" "ilp_b p = [1, 1, 1, 1, 1, 1]"
    using len by (auto simp: eval_nat_numeral)
  moreover have "2 \<notin> set (map ID gap_pool)" by (simp add: pool_defs)
  ultimately show ?thesis using b by (intro exI conjI)
qed

subsection \<open>The answer of the solver\<close>

lemma optimise_not_optimal:
  assumes "handed_to_solver (hypotheses self) = Inr p" and "ilp p = Inr (status, x)"
    and "status \<noteq> ''optimal''"
  shows "optimise ilp self lg =
     (Inr [], lg @ [setting_up, (INFO, ''Optimising...''),
                    (WARNING, ''Optimizer returned status: '' @ status)])"
  using assms(2,3) by (simp add: optimise_handed [OF assms(1)])

lemma optimise_optimal:
  assumes "handed_to_solver (hypotheses self) = Inr p" and "ilp p = Inr (''optimal'', Some x)"
    and "length x = length (hypotheses self)"
  shows "optimise ilp self lg =
     (Inr (filter (\<lambda>j. 0 < x ! j) [0..<length (hypotheses self)]),
      lg @ [setting_up, (INFO, ''Optimising...''),
            (INFO, ''Optimisation complete. (Solution: optimal)'')])"
proof -
  have "selected x 0 (hypotheses self) =
      Inr (filter (\<lambda>j. 0 < x ! j) [0..<0 + length (hypotheses self)])"
    using assms(3) by (intro selected_filter) simp
  then show ?thesis using assms(2) by (simp add: optimise_handed [OF assms(1)])
qed

text \<open>
  No selection covers each of the six slots of the pool of seven kinds exactly once: the
  reference solver finds the program infeasible.
\<close>

lemma seven_kinds_infeasible:
  "bind_err (handed_to_solver seven_kinds) exhaustive_ilp = Inr (''infeasible'', None)"
  by code_simp

text \<open>
  Claim C4. Whenever the solver is reached and answers with a status other than
  \<^verbatim>\<open>'optimal'\<close>, \<^verbatim>\<open>optimise\<close> raises nothing and returns the empty list,
  and of the records it logs exactly one is a warning.
\<close>

theorem non_optimal_gives_empty:
  assumes "handed_to_solver (hypotheses self) = Inr p" and "ilp p = Inr (status, x)"
    and "status \<noteq> ''optimal''"
  shows "\<exists>emitted. optimise ilp self lg = (Inr [], lg @ emitted)
           \<and> length (filter (\<lambda>e. fst e = WARNING) emitted) = 1
           \<and> emitted = [setting_up, (INFO, ''Optimising...''),
                         (WARNING, ''Optimizer returned status: '' @ status)]"
proof -
  have "optimise ilp self lg =
     (Inr [], lg @ [setting_up, (INFO, ''Optimising...''),
                    (WARNING, ''Optimizer returned status: '' @ status)])"
    using assms by (rule optimise_not_optimal)
  then show ?thesis by (simp add: setting_up_def)
qed

text \<open>The pool of seven kinds with the reference solver.\<close>

theorem non_optimal_gives_empty_witness:
  "optimise exhaustive_ilp \<lparr>hypotheses = seven_kinds\<rparr> [] =
     (Inr [], [setting_up, (INFO, ''Optimising...''),
               (WARNING, ''Optimizer returned status: infeasible'')])"
proof -
  from seven_kinds_infeasible obtain p where
    h: "handed_to_solver (hypotheses \<lparr>hypotheses = seven_kinds\<rparr>) = Inr p" and
    a: "exhaustive_ilp p = Inr (''infeasible'', None)"
    by (auto simp: bind_err_eq_Inr)
  have n: "''infeasible'' \<noteq> ''optimal''" by simp
  from non_optimal_gives_empty
    [where ilp = exhaustive_ilp and p = p and status = "''infeasible''" and x = None
       and self = "\<lparr>hypotheses = seven_kinds\<rparr>" and lg = "[]"] h a n
  show ?thesis by auto
qed

text \<open>
  Claim C6. Whenever the solver is reached and answers \<^verbatim>\<open>'optimal'\<close> with a
  vector \<open>x\<close> of one component for each hypothesis, \<^verbatim>\<open>optimise\<close> returns the
  positions \<open>j\<close> of the pool with \<open>x[j] > 0\<close>, each of them and no other, in increasing
  order. The test is \<open>x[j] > 0\<close>, not \<open>x[j] = 1\<close>.
\<close>

theorem optimal_selection:
  assumes "handed_to_solver (hypotheses self) = Inr p" and "ilp p = Inr (''optimal'', Some x)"
    and "length x = length (hypotheses self)"
  shows "\<exists>sel. fst (optimise ilp self lg) = Inr sel
           \<and> sel = filter (\<lambda>j. 0 < x ! j) [0..<length (hypotheses self)]
           \<and> set sel = {j. j < length (hypotheses self) \<and> 0 < x ! j}
           \<and> sorted_wrt (<) sel"
proof -
  have "optimise ilp self lg =
     (Inr (filter (\<lambda>j. 0 < x ! j) [0..<length (hypotheses self)]),
      lg @ [setting_up, (INFO, ''Optimising...''),
            (INFO, ''Optimisation complete. (Solution: optimal)'')])"
    using assms by (rule optimise_optimal)
  then show ?thesis by (auto simp: sorted_wrt_filter)
qed

lemma scenario_B_handed: "\<exists>p. handed_to_solver scenario_B = Inr p"
  using scenario_B_built handed_Inr by blast

text \<open>An answer with the components 0.001, 0 and 1 selects the positions 0 and 2.\<close>

theorem optimal_selection_witness:
  "fst (optimise (\<lambda>p. Inr (''optimal'', Some [1 / 1000, 0, 1])) \<lparr>hypotheses = scenario_B\<rparr> [])
     = Inr [0, 2]"
proof -
  from scenario_B_handed obtain p where
    h: "handed_to_solver (hypotheses \<lparr>hypotheses = scenario_B\<rparr>) = Inr p" by auto
  have l: "length [1 / 1000, 0, 1::real] = length (hypotheses \<lparr>hypotheses = scenario_B\<rparr>)"
    by (simp add: scenario_B_def)
  from optimal_selection
    [where ilp = "\<lambda>p. Inr (''optimal'', Some [1 / 1000, 0, 1])" and p = p
       and x = "[1 / 1000, 0, 1]" and self = "\<lparr>hypotheses = scenario_B\<rparr>" and lg = "[]"] h l
  show ?thesis by (simp add: scenario_B_def upt_conv_Cons)
qed

subsection \<open>Slots that no hypothesis covers\<close>

lemma zero_row:
  assumes "constraints hyps = Inr (N, M, rho)"
    and "\<forall>h\<in>set hyps. row \<notin> rows_written N h"
  shows "getitem M row j = 0"
proof -
  have "entries M (row, j) = None"
    using constraints_entries [OF assms(1), of row j] assms(2)
    by (auto simp: rows_written_def)
  then show ?thesis by (simp add: getitem_def)
qed

lemma zero_row_infeasible:
  assumes "constraints hyps = Inr (N, M, rho)" and "handed_to_solver hyps = Inr p"
    and "row < nat (2 * N)" and "\<forall>h\<in>set hyps. row \<notin> rows_written N h"
  shows "ilp_b p ! row = 1" and "\<not> feasible p x"
proof -
  have p: "p = \<lparr>ilp_c = map uminus rho,
          ilp_G = \<lparr>nrows = nat (2 * N), ncols = length hyps, entries = Map.empty\<rparr>,
          ilp_h = replicate (nat (2 * N)) 0, ilp_A = M,
          ilp_b = replicate (nat (2 * N)) 1, ilp_I = {}, ilp_B = {0..<length hyps}\<rparr>"
    using handed_Inr [OF assms(1)] assms(2) by simp
  show b: "ilp_b p ! row = 1" using assms(3) by (simp add: p)
  have z: "row_dot M row x = 0"
    using zero_row [OF assms(1,4)] by (simp add: row_dot_def)
  show "\<not> feasible p x"
  proof
    assume "feasible p x"
    then have "list_all (\<lambda>i. row_dot (ilp_A p) i x = ilp_b p ! i) [0..<nrows (ilp_A p)]"
      by (simp add: feasible_def)
    moreover have "row \<in> set [0..<nrows (ilp_A p)]"
      using assms(3) constraints_Inr(4) [OF assms(1)] by (simp add: p)
    ultimately have "row_dot (ilp_A p) row x = ilp_b p ! row"
      by (simp add: list_all_iff)
    with z b show False by (simp add: p)
  qed
qed

lemma sound_answer_infeasible:
  "sound_answer p ans \<Longrightarrow> \<forall>x. \<not> feasible p x \<Longrightarrow> fst ans \<noteq> ''optimal''"
  by (auto simp: sound_answer_def split: option.splits)

lemma optimise_infeasible:
  assumes "handed_to_solver (hypotheses self) = Inr p" and "ilp p = Inr ans"
    and "sound_answer p ans" and "\<forall>x. \<not> feasible p x"
  shows "fst (optimise ilp self lg) = Inr []"
proof -
  obtain status x where ans: "ans = (status, x)" by (cases ans)
  have n: "status \<noteq> ''optimal''" using sound_answer_infeasible [OF assms(3,4)] ans by simp
  have i: "ilp p = Inr (status, x)" using assms(2) ans by simp
  have "optimise ilp self lg =
     (Inr [], lg @ [setting_up, (INFO, ''Optimising...''),
                    (WARNING, ''Optimizer returned status: '' @ status)])"
    using assms(1) i n by (rule optimise_not_optimal)
  then show ?thesis by simp
qed

text \<open>
  Claim C9. Let the constraints be built and let \<open>t\<close> be a tracklet index between 1 and
  \<open>N\<close> whose tail slot (row \<open>t - 1\<close>) or head slot (row \<open>N + t - 1\<close>) receives no
  entry from the encoding of any hypothesis. Then that row of \<open>A\<close> is zero while \<open>b\<close>
  is 1 there, no vector satisfies the program, and with a solver that answers (it does not
  raise) and reports \<^verbatim>\<open>'optimal'\<close> only with a vector satisfying the program,
  \<^verbatim>\<open>optimise\<close> returns the empty list.
\<close>

theorem uncovered_slot:
  assumes "constraints (hypotheses self) = Inr (N, M, rho)"
    and "1 \<le> t" and "t \<le> N"
    and "row = nat (t - 1) \<or> row = nat (N + (t - 1))"
    and "\<forall>h\<in>set (hypotheses self). row \<notin> rows_written N h"
    and "handed_to_solver (hypotheses self) = Inr p"
    and "ilp p = Inr ans" and "sound_answer p ans"
  shows "(\<forall>j. getitem M row j = 0) \<and> ilp_b p ! row = 1 \<and> (\<forall>x. \<not> feasible p x)
       \<and> fst (optimise ilp self lg) = Inr []"
proof -
  have r: "row < nat (2 * N)" using assms(2,3,4) by auto
  have z: "\<forall>j. getitem M row j = 0" using zero_row [OF assms(1,5)] by simp
  have b: "ilp_b p ! row = 1" by (rule zero_row_infeasible(1) [OF assms(1,6) r assms(5)])
  have f: "\<forall>x. \<not> feasible p x"
    using zero_row_infeasible(2) [OF assms(1,6) r assms(5)] by simp
  have "fst (optimise ilp self lg) = Inr []"
    using assms(6,7,8) f by (rule optimise_infeasible)
  with z b f show ?thesis by simp
qed

text \<open>
  The pool with the identifiers 1 and 3: tracklet 2 has no hypothesis, the tail row of
  tracklet 2 is row 1.
\<close>

lemma gap_pool_built: "\<exists>M rho. constraints gap_pool = Inr (3, M, rho)"
  by (simp add: pool_defs build_defs)

lemma gap_pool_infeasible:
  "bind_err (handed_to_solver gap_pool) exhaustive_ilp = Inr (''infeasible'', None)"
  by code_simp

theorem uncovered_slot_witness:
  "fst (optimise exhaustive_ilp \<lparr>hypotheses = gap_pool\<rparr> []) = Inr []
   \<and> (\<exists>M rho. constraints gap_pool = Inr (3, M, rho) \<and> (\<forall>j. getitem M 1 j = 0))"
proof -
  from gap_pool_built obtain M rho where
    b: "constraints (hypotheses \<lparr>hypotheses = gap_pool\<rparr>) = Inr (3, M, rho)" by auto
  from gap_pool_infeasible obtain p where
    h: "handed_to_solver (hypotheses \<lparr>hypotheses = gap_pool\<rparr>) = Inr p" and
    a: "exhaustive_ilp p = Inr (''infeasible'', None)"
    by (auto simp: bind_err_eq_Inr)
  have s: "sound_answer p (''infeasible'', None)" by (simp add: sound_answer_def)
  have t: "(1::int) \<le> 2" "(2::int) \<le> 3" by simp_all
  have r: "(1::nat) = nat (2 - 1) \<or> (1::nat) = nat (3 + (2 - 1))" by simp
  have u: "\<forall>h\<in>set (hypotheses \<lparr>hypotheses = gap_pool\<rparr>). 1 \<notin> rows_written 3 h"
    by (simp add: pool_defs rows_written_def table_rows_def cwrap_def)
  from uncovered_slot
    [where ilp = exhaustive_ilp and self = "\<lparr>hypotheses = gap_pool\<rparr>" and lg = "[]"
       and p = p and ans = "(''infeasible'', None)" and t = 2 and row = 1, OF b t r u h a s]
  show ?thesis using b by auto
qed

subsection \<open>Scenario B\<close>






subsection \<open>Failures of the build\<close>

lemma build_loop_first_unrecognised:
  "\<forall>h'\<in>set pre. recognised (htype h') \<and>
       (\<forall>r\<in>set (table_rows N h'). \<not> out_rng r (nrows M)) \<Longrightarrow>
   c + length pre \<le> ncols M \<Longrightarrow> \<not> recognised (htype h) \<Longrightarrow>
   build_loop N c (pre @ h # post) (M, rho) = Inl ValueError"
proof (induction pre arbitrary: c M rho)
  case Nil
  then show ?case by (simp add: encode_table)
next
  case (Cons a pre)
  from Cons.prems obtain M1 where a: "assign_rows M (table_rows N a) c = Inr M1"
    using assign_rows_ok [of c M "table_rows N a"] by auto
  then have e: "encode N c a M = Inr M1" using Cons.prems by (simp add: encode_table)
  have sh: "nrows M1 = nrows M" "ncols M1 = ncols M" using encode_shape [OF e] by simp_all
  have "build_loop N (Suc c) (pre @ h # post) (M1, rho[c := log_likelihood a]) = Inl ValueError"
    using Cons.prems sh by (intro Cons.IH) auto
  then show ?case using e by simp
qed

lemma build_loop_earlier_IndexError:
  "\<forall>h'\<in>set pre. recognised (htype h') \<Longrightarrow>
   \<exists>h'\<in>set pre. \<exists>r\<in>set (table_rows N h'). out_rng r (nrows M) \<Longrightarrow>
   build_loop N c (pre @ rest) (M, rho) = Inl IndexError"
proof (induction pre arbitrary: c M rho)
  case Nil
  then show ?case by simp
next
  case (Cons a pre)
  have rec: "recognised (htype a)" using Cons.prems(1) by simp
  show ?case
  proof (cases "encode N c a M")
    case (Inl e)
    then have "e = IndexError" using rec
      by (auto simp: encode_table dest: assign_rows_Inl)
    with Inl show ?thesis by simp
  next
    case (Inr M1)
    have sh: "nrows M1 = nrows M" using encode_shape [OF Inr] by simp
    from Inr rec have "assign_rows M (table_rows N a) c = Inr M1"
      by (simp add: encode_table)
    then have "\<forall>r\<in>set (table_rows N a). \<not> out_rng r (nrows M)"
      using assign_rows_Inr_range by blast
    with Cons.prems(2) have "\<exists>h'\<in>set pre. \<exists>r\<in>set (table_rows N h'). out_rng r (nrows M1)"
      using sh by auto
    with Cons.prems(1)
    have "build_loop N (Suc c) (pre @ rest) (M1, rho[c := log_likelihood a]) = Inl IndexError"
      by (intro Cons.IH) auto
    with Inr show ?thesis by simp
  qed
qed

lemma constraints_first_unrecognised:
  assumes "hyps = pre @ h # post" and "list_all (\<lambda>g. recognised (htype g)) pre"
    and "\<not> recognised (htype h)" and "N = Max (set (map ID hyps))"
  shows "constraints hyps = Inl (first_failure N pre)"
proof -
  let ?A0 = "\<lparr>nrows = nat (2 * N), ncols = length hyps, entries = Map.empty\<rparr>"
  have rec: "\<forall>h'\<in>set pre. recognised (htype h')" using assms(2) by (simp add: list_all_iff)
  have "hyps \<noteq> []" using assms(1) by simp
  then have m: "max_ID hyps = Inr N" using max_ID_cases [of hyps] assms(4) by simp
  show ?thesis
  proof (cases "N < 0")
    case True
    then show ?thesis using constraints_steps [OF m] by (simp add: first_failure_def)
  next
    case False
    show ?thesis
    proof (cases "\<forall>h'\<in>set pre. \<forall>r\<in>set (table_rows N h'). \<not> out_rng r (nat (2 * N))")
      case True
      have "build_loop N 0 (pre @ h # post) (?A0, replicate (length hyps) 0) = Inl ValueError"
        using True rec assms(1,3) by (intro build_loop_first_unrecognised) auto
      then show ?thesis using False True constraints_steps [OF m] assms(1)
        by (simp add: first_failure_def list_all_iff)
    next
      case out: False
      have "build_loop N 0 (pre @ h # post) (?A0, replicate (length hyps) 0) = Inl IndexError"
        using out rec by (intro build_loop_earlier_IndexError) auto
      then show ?thesis using False out constraints_steps [OF m] assms(1)
        by (simp add: first_failure_def list_all_iff)
    qed
  qed
qed

lemma out_of_range_encode:
  assumes "recognised (htype h)" and "r \<in> set (table_rows N h)" and "out_rng r (nrows M)"
  shows "encode N c h M = Inl IndexError"
  using assign_rows_out_of_range [OF assms(2,3)] assms(1) by (simp add: encode_table)

text \<open>
  Claim C5, amended. Every pool with a hypothesis of an unrecognised type splits at its
  first such hypothesis \<open>h\<close> into the recognised hypotheses \<open>pre\<close> before it, \<open>h\<close>
  and the rest. For every such pool \<^verbatim>\<open>optimise\<close> raises while it builds the
  constraints: whatever the solver, the outcome is that exception and the logger holds
  the first record only, so the solver is never called, no result is returned and \<open>h\<close>
  is not skipped. The exception is the \<^verbatim>\<open>ValueError\<close> of \<open>h\<close> unless an earlier
  step raises first: the creation of the matrix when \<open>N\<close> is negative, or a hypothesis
  of \<open>pre\<close> one of whose rows lies outside the matrix, whose branch raises
  \<^verbatim>\<open>IndexError\<close>. What follows \<open>h\<close> in the pool plays no part.
\<close>

theorem unrecognised_type_raises:
  assumes "\<exists>h\<in>set (hypotheses self). \<not> recognised (htype h)"
  shows "(\<exists>pre h post. hypotheses self = pre @ h # post
            \<and> list_all (\<lambda>g. recognised (htype g)) pre \<and> \<not> recognised (htype h))
     \<and> (\<forall>pre h post N.
           hypotheses self = pre @ h # post
           \<and> list_all (\<lambda>g. recognised (htype g)) pre \<and> \<not> recognised (htype h)
           \<and> N = Max (set (map ID (hypotheses self))) \<longrightarrow>
           constraints (hypotheses self) = Inl (first_failure N pre)
           \<and> (\<forall>ilp lg. optimise ilp self lg = (Inl (first_failure N pre), lg @ [setting_up]))
           \<and> (\<forall>g\<in>set pre. \<forall>c M.
                 nrows M = nat (2 * N)
                 \<and> \<not> list_all (\<lambda>r. \<not> out_rng r (nat (2 * N))) (table_rows N g)
                 \<longrightarrow> encode N c g M = Inl IndexError))"
proof (rule conjI)
  from split_list_first_prop [OF assms] obtain pre h post where
    d: "hypotheses self = pre @ h # post" "\<not> recognised (htype h)"
       "\<forall>h'\<in>set pre. \<not> \<not> recognised (htype h')"
    by blast
  then have "list_all (\<lambda>g. recognised (htype g)) pre" by (simp add: list_all_iff)
  with d(1,2) show "\<exists>pre h post. hypotheses self = pre @ h # post
            \<and> list_all (\<lambda>g. recognised (htype g)) pre \<and> \<not> recognised (htype h)"
    by blast
next
  show "\<forall>pre h post N.
           hypotheses self = pre @ h # post
           \<and> list_all (\<lambda>g. recognised (htype g)) pre \<and> \<not> recognised (htype h)
           \<and> N = Max (set (map ID (hypotheses self))) \<longrightarrow>
           constraints (hypotheses self) = Inl (first_failure N pre)
           \<and> (\<forall>ilp lg. optimise ilp self lg = (Inl (first_failure N pre), lg @ [setting_up]))
           \<and> (\<forall>g\<in>set pre. \<forall>c M.
                 nrows M = nat (2 * N)
                 \<and> \<not> list_all (\<lambda>r. \<not> out_rng r (nat (2 * N))) (table_rows N g)
                 \<longrightarrow> encode N c g M = Inl IndexError)"
  proof (intro allI impI)
    fix pre h post N
    assume a: "hypotheses self = pre @ h # post
           \<and> list_all (\<lambda>g. recognised (htype g)) pre \<and> \<not> recognised (htype h)
           \<and> N = Max (set (map ID (hypotheses self)))"
    then have a1: "hypotheses self = pre @ h # post"
      and a2: "list_all (\<lambda>g. recognised (htype g)) pre"
      and a3: "\<not> recognised (htype h)"
      and a4: "N = Max (set (map ID (hypotheses self)))"
      by (rule conjunct1, rule conjunct2 [THEN conjunct1],
          rule conjunct2 [THEN conjunct2, THEN conjunct1],
          rule conjunct2 [THEN conjunct2, THEN conjunct2])
    have e: "constraints (hypotheses self) = Inl (first_failure N pre)"
      by (rule constraints_first_unrecognised [OF a1 a2 a3 a4])
    have o: "\<forall>ilp lg. optimise ilp self lg = (Inl (first_failure N pre), lg @ [setting_up])"
      using optimise_build_fails [OF e] by simp
    have t: "\<forall>g\<in>set pre. \<forall>c M.
                 nrows M = nat (2 * N)
                 \<and> \<not> list_all (\<lambda>r. \<not> out_rng r (nat (2 * N))) (table_rows N g)
                 \<longrightarrow> encode N c g M = Inl IndexError"
    proof (intro ballI allI impI)
      fix g c and M :: spmatrix
      assume g: "g \<in> set pre"
        and m: "nrows M = nat (2 * N)
                 \<and> \<not> list_all (\<lambda>r. \<not> out_rng r (nat (2 * N))) (table_rows N g)"
      then obtain r where r: "r \<in> set (table_rows N g)" "out_rng r (nrows M)"
        by (auto simp: list_all_iff)
      from a2 g have "recognised (htype g)" by (simp add: list_all_iff)
      from out_of_range_encode [OF this r] show "encode N c g M = Inl IndexError" .
    qed
    from e o t show "constraints (hypotheses self) = Inl (first_failure N pre)
           \<and> (\<forall>ilp lg. optimise ilp self lg = (Inl (first_failure N pre), lg @ [setting_up]))
           \<and> (\<forall>g\<in>set pre. \<forall>c M.
                 nrows M = nat (2 * N)
                 \<and> \<not> list_all (\<lambda>r. \<not> out_rng r (nat (2 * N))) (table_rows N g)
                 \<longrightarrow> encode N c g M = Inl IndexError)"
      by (intro conjI)
  qed
qed

text \<open>
  An unknown kind followed by a link out of range, and a false positive followed by an
  unknown kind of identifier 0, raise \<^verbatim>\<open>ValueError\<close>; a link out of range followed
  by an unknown kind raises \<^verbatim>\<open>IndexError\<close>.
\<close>

theorem unrecognised_type_raises_witness:
  "optimise exhaustive_ilp \<lparr>hypotheses = unknown_then_link\<rparr> [] = (Inl ValueError, [setting_up])
   \<and> optimise exhaustive_ilp \<lparr>hypotheses = unknown_zero_id\<rparr> [] = (Inl ValueError, [setting_up])
   \<and> optimise exhaustive_ilp \<lparr>hypotheses = link_then_unknown\<rparr> [] = (Inl IndexError, [setting_up])"
proof -
  have u1: "\<exists>h\<in>set (hypotheses \<lparr>hypotheses = unknown_then_link\<rparr>). \<not> recognised (htype h)"
    by (simp add: unknown_then_link_def plain_def link_def recognised_def)
  have d1: "hypotheses \<lparr>hypotheses = unknown_then_link\<rparr>
      = [] @ plain (UNRECOGNISED 99) 1 0 # [link 1 5 0]
    \<and> list_all (\<lambda>g. recognised (htype g)) []
    \<and> \<not> recognised (htype (plain (UNRECOGNISED 99) 1 0))
    \<and> 1 = Max (set (map ID (hypotheses \<lparr>hypotheses = unknown_then_link\<rparr>)))"
    by (simp add: unknown_then_link_def plain_def link_def recognised_def)
  note k1 = unrecognised_type_raises [OF u1, THEN conjunct2,
      THEN spec [where x = "[]"], THEN spec [where x = "plain (UNRECOGNISED 99) 1 0"],
      THEN spec [where x = "[link 1 5 0]"], THEN spec [where x = 1], THEN mp, OF d1,
      THEN conjunct2, THEN conjunct1]
  have f1: "first_failure 1 [] = ValueError" by (simp add: first_failure_def)
  have r1: "optimise exhaustive_ilp \<lparr>hypotheses = unknown_then_link\<rparr> []
      = (Inl ValueError, [setting_up])"
    using k1 f1 by simp
  have u2: "\<exists>h\<in>set (hypotheses \<lparr>hypotheses = unknown_zero_id\<rparr>). \<not> recognised (htype h)"
    by (simp add: unknown_zero_id_def plain_def recognised_def)
  have d2: "hypotheses \<lparr>hypotheses = unknown_zero_id\<rparr>
      = [plain FALSE_POSITIVE 1 0] @ plain (UNRECOGNISED 99) 0 0 # []
    \<and> list_all (\<lambda>g. recognised (htype g)) [plain FALSE_POSITIVE 1 0]
    \<and> \<not> recognised (htype (plain (UNRECOGNISED 99) 0 0))
    \<and> 1 = Max (set (map ID (hypotheses \<lparr>hypotheses = unknown_zero_id\<rparr>)))"
    by (simp add: unknown_zero_id_def plain_def recognised_def)
  note k2 = unrecognised_type_raises [OF u2, THEN conjunct2,
      THEN spec [where x = "[plain FALSE_POSITIVE 1 0]"],
      THEN spec [where x = "plain (UNRECOGNISED 99) 0 0"],
      THEN spec [where x = "[]"], THEN spec [where x = 1], THEN mp, OF d2,
      THEN conjunct2, THEN conjunct1]
  have f2: "first_failure 1 [plain FALSE_POSITIVE 1 0] = ValueError"
    by (simp add: first_failure_def plain_def table_rows_def out_rng_def)
  have r2: "optimise exhaustive_ilp \<lparr>hypotheses = unknown_zero_id\<rparr> []
      = (Inl ValueError, [setting_up])"
    using k2 f2 by simp
  have u3: "\<exists>h\<in>set (hypotheses \<lparr>hypotheses = link_then_unknown\<rparr>). \<not> recognised (htype h)"
    by (simp add: link_then_unknown_def plain_def link_def recognised_def)
  have d3: "hypotheses \<lparr>hypotheses = link_then_unknown\<rparr>
      = [link 1 5 0] @ plain (UNRECOGNISED 99) 1 0 # []
    \<and> list_all (\<lambda>g. recognised (htype g)) [link 1 5 0]
    \<and> \<not> recognised (htype (plain (UNRECOGNISED 99) 1 0))
    \<and> 1 = Max (set (map ID (hypotheses \<lparr>hypotheses = link_then_unknown\<rparr>)))"
    by (simp add: link_then_unknown_def plain_def link_def recognised_def)
  note k3 = unrecognised_type_raises [OF u3, THEN conjunct2,
      THEN spec [where x = "[link 1 5 0]"],
      THEN spec [where x = "plain (UNRECOGNISED 99) 1 0"],
      THEN spec [where x = "[]"], THEN spec [where x = 1], THEN mp, OF d3,
      THEN conjunct2, THEN conjunct1]
  have f3: "first_failure 1 [link 1 5 0] = IndexError"
    by (simp add: first_failure_def plain_def link_def table_rows_def out_rng_def)
  have r3: "optimise exhaustive_ilp \<lparr>hypotheses = link_then_unknown\<rparr> []
      = (Inl IndexError, [setting_up])"
    using k3 f3 by simp
  from r1 r2 r3 show ?thesis by (intro conjI)
qed

text \<open>
  Claim C5 as stated fails. In a pool whose first hypothesis links tracklet 1 to a
  tracklet 5 while \<open>N = 1\<close>, and whose second hypothesis has an unrecognised type, the
  assignment of row \<open>N + 4\<close> raises \<^verbatim>\<open>IndexError\<close> before the second hypothesis
  is looked at: the exception that leaves \<^verbatim>\<open>optimise\<close> is not \<^verbatim>\<open>ValueError\<close>.
\<close>

theorem earlier_IndexError:
  "fst (optimise exhaustive_ilp \<lparr>hypotheses = link_then_unknown\<rparr> []) = Inl IndexError
   \<and> \<not> list_all (\<lambda>h. recognised (htype h)) link_then_unknown"
  by code_simp

subsection \<open>References and rows\<close>

lemma out_of_matrix_row:
  "out_of_matrix N h \<Longrightarrow> \<exists>r\<in>set (table_rows N h). 2 * N \<le> r"
  by (cases "htype h") (auto simp: out_of_matrix_def table_rows_def Let_def)

lemma out_of_matrix_recognised: "out_of_matrix N h \<Longrightarrow> recognised (htype h)"
  by (cases "htype h") (auto simp: out_of_matrix_def recognised_def)

lemma out_of_matrix_encode:
  assumes "out_of_matrix N h" and "0 \<le> N" and "nrows M = nat (2 * N)"
  shows "encode N c h M = Inl IndexError"
proof -
  from out_of_matrix_row [OF assms(1)] obtain r where
    r: "r \<in> set (table_rows N h)" "2 * N \<le> r" by blast
  then have "out_rng r (nrows M)" using assms(2,3) by (simp add: out_rng_def)
  from assign_rows_out_of_range [OF r(1) this] out_of_matrix_recognised [OF assms(1)]
  show ?thesis by (simp add: encode_table)
qed

lemma out_of_matrix_fails:
  assumes "h \<in> set hyps" and "out_of_matrix (Max (set (map ID hyps))) h"
  shows "\<exists>e. constraints hyps = Inl e"
proof (cases "constraints hyps")
  case (Inl e)
  then show ?thesis by simp
next
  case (Inr res)
  obtain N M rho where "res = (N, M, rho)" by (cases res)
  with Inr have b: "constraints hyps = Inr (N, M, rho)" by simp
  have n: "N = Max (set (map ID hyps))" by (rule constraints_Inr(2) [OF b])
  from out_of_matrix_row [OF assms(2)] n obtain r where
    r: "r \<in> set (table_rows N h)" "2 * N \<le> r" by blast
  from constraints_each(2) [OF b assms(1) r(1)] r(2) constraints_Inr(3) [OF b]
  show ?thesis by (simp add: out_rng_def)
qed

text \<open>
  Claim C10, amended. \<open>N\<close> is computed from the subject identifiers alone: two pools with
  the same subject identifiers give the same \<open>N\<close>. When every identifier of the pool,
  subject or auxiliary, lies between 1 and \<open>N\<close>, the rows that the branch of each
  hypothesis assigns are those of its line of the table and lie in \<open>[0, 2N)\<close>. A link
  whose target, or a division one of whose children, exceeds \<open>N\<close>, and a merge one of
  whose parents exceeds \<open>2N\<close>, make an assignment fall outside the matrix: the branch
  raises \<^verbatim>\<open>IndexError\<close> and \<^verbatim>\<open>optimise\<close> raises during the build, whatever the
  solver, which is never called. Nothing is said of a merge whose parents lie between
  \<open>N + 1\<close> and \<open>2N\<close>: their rows \<open>ref - 1\<close> are rows of the matrix.
\<close>

theorem rows_and_references:
  "(map ID hyps = map ID hyps' \<longrightarrow> max_ID hyps = max_ID hyps')
   \<and> (max_ID hyps = Inr N \<and> (\<forall>h\<in>set hyps. ids_in_range N h) \<longrightarrow>
        (\<forall>h\<in>set hyps. \<forall>c M.
           encode N c h M =
             (if recognised (htype h) then assign_rows M (table_rows N h) c else Inl ValueError)
           \<and> (\<forall>r\<in>set (table_rows N h). 0 \<le> r \<and> r < 2 * N)))
   \<and> (max_ID hyps = Inr N \<and> h \<in> set hyps \<and> out_of_matrix N h \<longrightarrow>
        (\<forall>c M. 0 \<le> N \<and> nrows M = nat (2 * N) \<longrightarrow> encode N c h M = Inl IndexError)
        \<and> (\<exists>e. constraints hyps = Inl e
              \<and> (\<forall>ilp lg. optimise ilp \<lparr>hypotheses = hyps\<rparr> lg = (Inl e, lg @ [setting_up]))))"
proof (intro conjI impI)
  assume "map ID hyps = map ID hyps'"
  then show "max_ID hyps = max_ID hyps'"
    by (cases hyps; cases hyps') (simp_all add: max_ID_def)
next
  assume "max_ID hyps = Inr N \<and> (\<forall>h\<in>set hyps. ids_in_range N h)"
  then show "\<forall>h\<in>set hyps. \<forall>c M.
           encode N c h M =
             (if recognised (htype h) then assign_rows M (table_rows N h) c else Inl ValueError)
           \<and> (\<forall>r\<in>set (table_rows N h). 0 \<le> r \<and> r < 2 * N)"
    using ids_in_range_rows [of N] encode_table [of N] by blast
next
  assume a: "max_ID hyps = Inr N \<and> h \<in> set hyps \<and> out_of_matrix N h"
  then show "\<forall>c M. 0 \<le> N \<and> nrows M = nat (2 * N) \<longrightarrow> encode N c h M = Inl IndexError"
    using out_of_matrix_encode [of N h] by blast
next
  assume a: "max_ID hyps = Inr N \<and> h \<in> set hyps \<and> out_of_matrix N h"
  then have "N = Max (set (map ID hyps))" using max_ID_cases [of hyps] by auto
  with a out_of_matrix_fails [of h hyps] obtain e where e: "constraints hyps = Inl e"
    by blast
  have "\<forall>ilp lg. optimise ilp \<lparr>hypotheses = hyps\<rparr> lg = (Inl e, lg @ [setting_up])"
    using optimise_build_fails [of "\<lparr>hypotheses = hyps\<rparr>" e] e by simp
  with e show "\<exists>e. constraints hyps = Inl e
              \<and> (\<forall>ilp lg. optimise ilp \<lparr>hypotheses = hyps\<rparr> lg = (Inl e, lg @ [setting_up]))"
    by blast
qed

text \<open>
  The pool of seven kinds (\<open>N = 3\<close>, every identifier between 1 and 3) and the pool
  whose link targets tracklet 5 while \<open>N = 1\<close>.
\<close>

theorem rows_and_references_witness:
  "list_all (\<lambda>h. list_all (\<lambda>r. 0 \<le> r \<and> r < 6) (table_rows 3 h)) seven_kinds
   \<and> (\<exists>e. constraints link_then_unknown = Inl e
         \<and> optimise exhaustive_ilp \<lparr>hypotheses = link_then_unknown\<rparr> [] = (Inl e, [setting_up]))"
proof -
  have m3: "max_ID seven_kinds = Inr 3" by (simp add: max_ID_def pool_defs)
  have r3: "\<forall>h\<in>set seven_kinds. ids_in_range 3 h"
    by (simp add: pool_defs ids_in_range_def aux_refs_def)
  have "\<forall>h\<in>set seven_kinds. \<forall>r\<in>set (table_rows 3 h). 0 \<le> r \<and> r < 2 * 3"
    using rows_and_references [where hyps = seven_kinds and N = 3] m3 r3 by blast
  then have one: "list_all (\<lambda>h. list_all (\<lambda>r. 0 \<le> r \<and> r < 6) (table_rows 3 h)) seven_kinds"
    by (simp add: list_all_iff)
  have m1: "max_ID link_then_unknown = Inr 1" by (simp add: max_ID_def pool_defs)
  have h1: "link 1 5 0 \<in> set link_then_unknown" by (simp add: link_then_unknown_def)
  have o1: "out_of_matrix 1 (link 1 5 0)" by (simp add: out_of_matrix_def pool_defs)
  have "\<exists>e. constraints link_then_unknown = Inl e
         \<and> (\<forall>ilp lg. optimise ilp \<lparr>hypotheses = link_then_unknown\<rparr> lg = (Inl e, lg @ [setting_up]))"
    using rows_and_references [where hyps = link_then_unknown and N = 1 and h = "link 1 5 0"]
      m1 h1 o1 by blast
  then have two: "\<exists>e. constraints link_then_unknown = Inl e
         \<and> optimise exhaustive_ilp \<lparr>hypotheses = link_then_unknown\<rparr> [] = (Inl e, [setting_up])"
    by auto
  from one two show ?thesis by simp
qed

text \<open>
  Claim C10 as stated fails for a merge. In the pool of a merge of tracklet 1 from the
  parents 2 and 2 and a termination of tracklet 1, \<open>N = 1\<close> and both parents exceed it;
  the parents' row \<open>2 - 1 = 1\<close> is a row of the matrix of two rows, the build succeeds,
  the solver is called, and with the reference solver both hypotheses are selected.
\<close>

theorem merge_beyond_accepted:
  "optimise exhaustive_ilp \<lparr>hypotheses = merge_beyond\<rparr> [] =
     (Inr [0, 1], [setting_up, (INFO, ''Optimising...''),
                   (INFO, ''Optimisation complete. (Solution: optimal)'')])
   \<and> max_ID merge_beyond = Inr 1
   \<and> parent_one_ID (merge_beyond ! 0) = 2 \<and> parent_two_ID (merge_beyond ! 0) = 2"
  by code_simp

end
